theory Spec2Isabelle
  imports Complex_Main
begin

section \<open>Style crawler: path and naming utilities\<close>

text \<open>
  JavaScript strings are modelled as \<^typ>\<open>string\<close>. The functions below only compare
  characters with the ASCII characters comma, space, slash, hyphen and the letters of
  \<^verbatim>\<open>http://\<close>, so nothing depends on the width of a character.
\<close>

text \<open>
  Errors: the TypeError of the host language, and a failure reported by an external
  collaborator (the browser session).
\<close>

datatype error = TypeError | ExternalFailure

text \<open>How a promise ends: fulfilled with a value, rejected with an error, or never settled.\<close>

datatype 'a settlement = Resolves 'a | Rejects error | NeverSettles

subsection \<open>String primitives of the host language\<close>

text \<open>\<^verbatim>\<open>s.split(c)\<close> for a one-character separator: never the empty array.\<close>

fun split :: "char \<Rightarrow> string \<Rightarrow> string list" where
  "split sep [] = [[]]"
| "split sep (c # cs) =
     (if c = sep then [] # split sep cs
      else (case split sep cs of
              [] \<Rightarrow> [[c]]
            | w # ws \<Rightarrow> (c # w) # ws))"

text \<open>
  \<^verbatim>\<open>s.replace(a, b)\<close> with a string pattern of one character: only the first
  occurrence is replaced.
\<close>

fun replaceFirst :: "char \<Rightarrow> char \<Rightarrow> string \<Rightarrow> string" where
  "replaceFirst a b [] = []"
| "replaceFirst a b (c # cs) = (if c = a then b # cs else c # replaceFirst a b cs)"

text \<open>\<^verbatim>\<open>s.replace(/\//g, '-')\<close>: every occurrence is replaced.\<close>

definition replaceAll :: "char \<Rightarrow> char \<Rightarrow> string \<Rightarrow> string" where
  "replaceAll a b s = map (\<lambda>c. if c = a then b else c) s"

fun startsWith :: "string \<Rightarrow> string \<Rightarrow> bool" where
  "startsWith [] s = True"
| "startsWith (p # ps) [] = False"
| "startsWith (p # ps) (c # cs) = (p = c \<and> startsWith ps cs)"

text \<open>
  \<^verbatim>\<open>url.replace(/https?:\/\//, '')\<close>: the pattern is not anchored, so the leftmost
  match, wherever it starts, is removed; at one position the pattern matches either the
  eight characters of \<^verbatim>\<open>https://\<close> or the seven of \<^verbatim>\<open>http://\<close>.
\<close>

fun removeFirstScheme :: "string \<Rightarrow> string" where
  "removeFirstScheme [] = []"
| "removeFirstScheme (c # cs) =
     (if startsWith ''https://'' (c # cs) then drop 8 (c # cs)
      else if startsWith ''http://'' (c # cs) then drop 7 (c # cs)
      else c # removeFirstScheme cs)"

subsection \<open>buildTagSafe\<close>

text \<open>
  \<^verbatim>\<open>return tag.split( ',' )[0].replace( ' ', '-' );\<close>
  Indexing an empty array would give \<^verbatim>\<open>undefined\<close>, whose \<^verbatim>\<open>replace\<close> is a
  TypeError.
\<close>

definition buildTagSafe :: "string \<Rightarrow> error + string" where
  "buildTagSafe tag =
     (case split CHR '','' tag of
        [] \<Rightarrow> Inl TypeError
      | s # _ \<Rightarrow> Inr (replaceFirst CHR '' '' CHR ''-'' s))"

subsection \<open>buildUrlFileName and the run directory\<close>

text \<open>
  The last character is read as \<^verbatim>\<open>url[ urlLength - 1 ]\<close>, which is
  \<^verbatim>\<open>undefined\<close> for the empty string; \<^verbatim>\<open>slice( 0, urlLength - 1 )\<close> drops it.
\<close>

definition trimHyphen :: "string \<Rightarrow> string" where
  "trimHyphen url = (if url \<noteq> [] \<and> last url = CHR ''-'' then butlast url else url)"

definition buildUrlFileName :: "string \<Rightarrow> string" where
  "buildUrlFileName url =
     trimHyphen (replaceAll CHR ''/'' CHR ''-'' (removeFirstScheme url))"

definition screenshotDir :: "string \<Rightarrow> string" where
  "screenshotDir url = ''./data/'' @ buildUrlFileName url"

subsection \<open>The specification's wording, for comparison\<close>

text \<open>The first selector of a group: the text before the first comma.\<close>

definition spec_firstSelector :: "string \<Rightarrow> string" where
  "spec_firstSelector tag = takeWhile (\<lambda>c. c \<noteq> CHR '','') tag"

text \<open>ASCII white space: space, tab, line feed, vertical tab, form feed, carriage return.\<close>

definition isWhitespace :: "char \<Rightarrow> bool" where
  "isWhitespace c = (c \<in> set [CHR '' '', CHR 0x09, CHR 0x0A, CHR 0x0B, CHR 0x0C, CHR 0x0D])"

definition spec_regionId :: "string \<Rightarrow> string" where
  "spec_regionId tag = filter (\<lambda>c. \<not> isWhitespace c) (spec_firstSelector tag)"

text \<open>Stripping the scheme: a leading \<^verbatim>\<open>https://\<close> or \<^verbatim>\<open>http://\<close> is dropped.\<close>

definition spec_stripScheme :: "string \<Rightarrow> string" where
  "spec_stripScheme url =
     (if startsWith ''https://'' url then drop 8 url
      else if startsWith ''http://'' url then drop 7 url
      else url)"

text \<open>
  The command line takes an absolute target URL, scheme included; the scheme the claim
  speaks of is \<^verbatim>\<open>http\<close> or \<^verbatim>\<open>https\<close>, written in lower case as the pattern
  of the code has it.
\<close>

definition hasHttpScheme :: "string \<Rightarrow> bool" where
  "hasHttpScheme url = (startsWith ''http://'' url \<or> startsWith ''https://'' url)"

text \<open>An occurrence of \<^verbatim>\<open>https://\<close> or \<^verbatim>\<open>http://\<close> anywhere in the URL.\<close>

fun mentionsHttpScheme :: "string \<Rightarrow> bool" where
  "mentionsHttpScheme [] = False"
| "mentionsHttpScheme (c # cs) =
     (startsWith ''https://'' (c # cs) \<or> startsWith ''http://'' (c # cs)
      \<or> mentionsHttpScheme cs)"

definition spec_runDir :: "string \<Rightarrow> string" where
  "spec_runDir url =
     ''./data/'' @ trimHyphen (replaceAll CHR ''/'' CHR ''-'' (spec_stripScheme url))"

section \<open>The configuration\<close>

record config =
  tags :: "string list"
  props :: "string list"

definition shippedConfig :: config where
  "shippedConfig =
     \<lparr>tags =
        [''body'',
         ''header, #header, #hd, .header'',
         ''nav, #nav, .main_nav, .main--nav, .nav'',
         ''section'',
         ''content'',
         ''footer, #footer, .footer'',
         ''main, #main, [role=main], .main''],
      props =
        [''background-color'', ''background-image'', ''background-repeat'', ''box-shadow'',
         ''color'', ''font-family'', ''font-size'', ''font-weight'', ''line-height'',
         ''text-transform'', ''text-shadow'']\<rparr>"

section \<open>The page, as the functions evaluated inside it see it\<close>

text \<open>
  The functions \<^verbatim>\<open>getBoundingRectangle\<close> and \<^verbatim>\<open>scrapeStyles\<close> run inside the page.
  What they read there is a parameter of the model: the elements of the document in tree
  order, the browser's matching of one selector against an element, whether an AMD loader
  is present (\<^verbatim>\<open>typeof define === 'function' && define.amd\<close>), the injected
  visibility predicate, the layout rectangle and the computed style of an element.
\<close>

datatype jsval = Undefined | Str string

datatype jsnum = NaN | Num real

record domRect =
  rectLeft :: real
  rectTop :: real
  rectWidth :: real
  rectHeight :: real

record 'el page =
  elements :: "'el list"
  selectorMatches :: "string \<Rightarrow> 'el \<Rightarrow> bool"
  amd :: bool
  isVisible :: "'el \<Rightarrow> bool"
  getBoundingClientRect :: "'el \<Rightarrow> domRect"
  getComputedStyle :: "'el \<Rightarrow> string \<Rightarrow> jsval"

subsection \<open>Selector groups\<close>

text \<open>
  A selector group is a comma-separated selector list; white space around a selector is
  not part of it. \<^verbatim>\<open>querySelectorAll\<close> returns, in tree order, the elements that
  match at least one selector of the list, and \<^verbatim>\<open>querySelector\<close> the first of them
  or \<^verbatim>\<open>null\<close>. The groups are taken to be well formed, as the shipped ones are (a
  malformed selector raises a SyntaxError in the browser).
\<close>

definition trim :: "string \<Rightarrow> string" where
  "trim s = rev (dropWhile isWhitespace (rev (dropWhile isWhitespace s)))"

definition selectorsOf :: "string \<Rightarrow> string list" where
  "selectorsOf tag = map trim (split CHR '','' tag)"

definition groupMatches :: "'el page \<Rightarrow> string \<Rightarrow> 'el \<Rightarrow> bool" where
  "groupMatches pg tag el = list_ex (\<lambda>s. selectorMatches pg s el) (selectorsOf tag)"

definition querySelectorAll :: "'el page \<Rightarrow> string \<Rightarrow> 'el list" where
  "querySelectorAll pg tag = filter (groupMatches pg tag) (elements pg)"

definition querySelector :: "'el page \<Rightarrow> string \<Rightarrow> 'el option" where
  "querySelector pg tag = (case querySelectorAll pg tag of [] \<Rightarrow> None | el # _ \<Rightarrow> Some el)"

subsection \<open>getBoundingRectangle: resolving the element\<close>

text \<open>
  \<^verbatim>\<open>checkVisible\<close> returns the Boolean of \<^verbatim>\<open>isVisible( el )\<close>, or, under an AMD
  loader, a Promise that will resolve to that Boolean.
\<close>

datatype visibility = Known bool | Promised bool

definition checkVisible :: "'el page \<Rightarrow> 'el \<Rightarrow> visibility" where
  "checkVisible pg el =
     (if amd pg then Promised (isVisible pg el) else Known (isVisible pg el))"

text \<open>The truth value of \<^verbatim>\<open>elIsVisible ? el : null\<close>: a Promise is an object, hence truthy.\<close>

fun truthy :: "visibility \<Rightarrow> bool" where
  "truthy (Known b) = b"
| "truthy (Promised b) = True"

text \<open>
  The loop over \<^verbatim>\<open>els\<close>: it breaks at the first element whose check is truthy; the
  result is the final value of \<^verbatim>\<open>el\<close> (\<^verbatim>\<open>undefined\<close> or \<^verbatim>\<open>null\<close> is \<open>None\<close>).
\<close>

fun resolveElement :: "'el page \<Rightarrow> 'el list \<Rightarrow> 'el option" where
  "resolveElement pg [] = None"
| "resolveElement pg (el # els) =
     (if truthy (checkVisible pg el) then Some el else resolveElement pg els)"

subsection \<open>Numbers of the host language\<close>

text \<open>
  A Number is a binary64 floating point value: \<^verbatim>\<open>NaN\<close>, or a real that the format
  holds. The result of an arithmetic operation is the exact result rounded to the
  nearest value of the format, a tie going to the even significand: a real \<open>x\<close> in the
  binade \<open>2 ^ e \<le> \<bar>x\<bar> < 2 ^ (e + 1)\<close> is rounded to a multiple of \<open>2 ^ (e - 52)\<close>.
  Overflow to infinity and the subnormal range, both far from any layout size, are not
  modelled.
\<close>

definition binade :: "real \<Rightarrow> int" where
  "binade x = \<lfloor>log 2 \<bar>x\<bar>\<rfloor>"

definition roundHalfEven :: "real \<Rightarrow> int" where
  "roundHalfEven x =
     (let f = \<lfloor>x\<rfloor>; d = x - of_int f
      in if d < 1 / 2 then f
         else if 1 / 2 < d then f + 1
         else if even f then f else f + 1)"

definition roundDouble :: "real \<Rightarrow> real" where
  "roundDouble x =
     (if x = 0 then 0
      else (let ulp = 2 powr (of_int (binade x) - 52)
            in of_int (roundHalfEven (x / ulp)) * ulp))"

text \<open>A real that the format holds is left as it is by the rounding.\<close>

definition isDouble :: "real \<Rightarrow> bool" where
  "isDouble x = (roundDouble x = x)"

subsection \<open>getBoundingRectangle: the padded box\<close>

definition toString :: "jsval \<Rightarrow> string" where
  "toString v = (case v of Undefined \<Rightarrow> ''undefined'' | Str s \<Rightarrow> s)"

definition digitValue :: "char \<Rightarrow> nat option" where
  "digitValue c =
     (let n = (of_char c :: nat) in
      if 48 \<le> n \<and> n \<le> 57 then Some (n - 48)
      else if 97 \<le> n \<and> n \<le> 122 then Some (n - 87)
      else if 65 \<le> n \<and> n \<le> 90 then Some (n - 55)
      else None)"

definition isRadixDigit :: "nat \<Rightarrow> char \<Rightarrow> bool" where
  "isRadixDigit radix c = (case digitValue c of None \<Rightarrow> False | Some d \<Rightarrow> d < radix)"

definition digitsValue :: "nat \<Rightarrow> string \<Rightarrow> nat" where
  "digitsValue radix ds =
     foldl (\<lambda>acc c. acc * radix + (case digitValue c of None \<Rightarrow> 0 | Some d \<Rightarrow> d)) 0 ds"

text \<open>
  \<^verbatim>\<open>parseInt( v )\<close> without a radix: leading white space is skipped, a sign is read, a
  prefix \<^verbatim>\<open>0x\<close> selects radix 16, and the longest run of digits is the value; without
  a digit the result is \<^verbatim>\<open>NaN\<close>. What follows the digits, such as \<^verbatim>\<open>px\<close> or a
  fraction, is ignored. The integer read is returned as a Number, hence rounded.
\<close>

definition parseInt :: "jsval \<Rightarrow> jsnum" where
  "parseInt v =
     (let s = dropWhile isWhitespace (toString v);
          sign = (if startsWith ''-'' s then - 1 else (1 :: int));
          s1 = (if startsWith ''-'' s \<or> startsWith ''+'' s then drop 1 s else s);
          radix = (if startsWith ''0x'' s1 \<or> startsWith ''0X'' s1 then 16 else 10);
          s2 = (if startsWith ''0x'' s1 \<or> startsWith ''0X'' s1 then drop 2 s1 else s1);
          ds = takeWhile (isRadixDigit radix) s2
      in if ds = [] then NaN
         else Num (roundDouble (of_int (sign * int (digitsValue radix ds)))))"

text \<open>The operator \<^verbatim>\<open>+\<close> on Numbers: the sum, rounded; \<^verbatim>\<open>NaN\<close> is absorbing.\<close>

fun plus_js :: "jsnum \<Rightarrow> jsnum \<Rightarrow> jsnum" where
  "plus_js (Num a) (Num b) = Num (roundDouble (a + b))"
| "plus_js _ _ = NaN"

text \<open>\<^verbatim>\<open>Math.floor\<close>: the floor of a value of the format is a value of the format.\<close>

fun mathFloor :: "jsnum \<Rightarrow> jsnum" where
  "mathFloor (Num a) = Num (of_int \<lfloor>a\<rfloor>)"
| "mathFloor NaN = NaN"

record boundingRect =
  boxX :: jsnum
  boxY :: jsnum
  boxWidth :: jsnum
  boxHeight :: jsnum

definition boundingBox :: "'el page \<Rightarrow> 'el \<Rightarrow> boundingRect" where
  "boundingBox pg el =
     (let rect = getBoundingClientRect pg el;
          style = getComputedStyle pg el;
          paddedWidth = plus_js (plus_js (Num (rectWidth rect))
                                   (parseInt (style ''padding-left'')))
                                (parseInt (style ''padding-right''));
          paddedHeight = plus_js (plus_js (Num (rectHeight rect))
                                    (parseInt (style ''padding-top'')))
                                 (parseInt (style ''padding-bottom''))
      in \<lparr>boxX = mathFloor (Num (rectLeft rect)),
          boxY = mathFloor (Num (rectTop rect)),
          boxWidth = mathFloor paddedWidth,
          boxHeight = mathFloor paddedHeight\<rparr>)"

definition getBoundingRectangle :: "'el page \<Rightarrow> string \<Rightarrow> boundingRect option" where
  "getBoundingRectangle pg tag =
     (case resolveElement pg (querySelectorAll pg tag) of
        None \<Rightarrow> None
      | Some el \<Rightarrow> Some (boundingBox pg el))"

subsection \<open>scrapeStyles\<close>

text \<open>
  The two \<^verbatim>\<open>forEach\<close> loops are folds; assigning \<^verbatim>\<open>style[ tag ]\<close> is a map update.
\<close>

definition readProps :: "'el page \<Rightarrow> 'el \<Rightarrow> string list \<Rightarrow> (string \<rightharpoonup> jsval)" where
  "readProps pg el ps = foldl (\<lambda>st p. st(p \<mapsto> getComputedStyle pg el p)) Map.empty ps"

definition scrapeStyles :: "'el page \<Rightarrow> config \<Rightarrow> (string \<rightharpoonup> (string \<rightharpoonup> jsval))" where
  "scrapeStyles pg cfg =
     foldl (\<lambda>style tag.
              case querySelector pg tag of
                None \<Rightarrow> style
              | Some el \<Rightarrow> style(tag \<mapsto> readProps pg el (props cfg)))
           Map.empty (tags cfg)"

subsection \<open>The specification's wording, for comparison\<close>

text \<open>
  Candidates ordered first by the position of the matching selector within the group,
  then by tree order; the resolved element is the first visible candidate.
\<close>

definition spec_candidates :: "'el page \<Rightarrow> string \<Rightarrow> 'el list" where
  "spec_candidates pg tag =
     concat (map (\<lambda>s. filter (selectorMatches pg s) (elements pg)) (selectorsOf tag))"

definition spec_resolve :: "'el page \<Rightarrow> string \<Rightarrow> 'el option" where
  "spec_resolve pg tag = find (isVisible pg) (spec_candidates pg tag)"

text \<open>
  The computed padding as a number of pixels: the digits of its integer part and, after
  a point, the digits of its fraction. The box of the claim adds the computed paddings
  to the width and the height of the layout rectangle and takes the floor.
\<close>

definition spec_pixels :: "jsval \<Rightarrow> real" where
  "spec_pixels v =
     (let s = toString v;
          ip = takeWhile (isRadixDigit 10) s;
          rest = dropWhile (isRadixDigit 10) s;
          fp = (case rest of
                  [] \<Rightarrow> []
                | c # r \<Rightarrow> if c = CHR ''.'' then takeWhile (isRadixDigit 10) r else [])
      in real (digitsValue 10 ip) + real (digitsValue 10 fp) / 10 ^ length fp)"

definition spec_boundingBox :: "'el page \<Rightarrow> 'el \<Rightarrow> boundingRect" where
  "spec_boundingBox pg el =
     (let rect = getBoundingClientRect pg el;
          style = getComputedStyle pg el
      in \<lparr>boxX = Num (of_int \<lfloor>rectLeft rect\<rfloor>),
          boxY = Num (of_int \<lfloor>rectTop rect\<rfloor>),
          boxWidth = Num (of_int \<lfloor>rectWidth rect + spec_pixels (style ''padding-left'')
                                    + spec_pixels (style ''padding-right'')\<rfloor>),
          boxHeight = Num (of_int \<lfloor>rectHeight rect + spec_pixels (style ''padding-top'')
                                     + spec_pixels (style ''padding-bottom'')\<rfloor>)\<rparr>)"

text \<open>
  The integer part of a computed padding. The decimal numeral of a natural number, and
  a computed padding whose text begins with the numeral of \<open>n\<close>, followed by something
  that continues neither the numeral nor a prefix \<^verbatim>\<open>0x\<close>: a unit such as
  \<^verbatim>\<open>px\<close>, or a point and a fraction. The integer is one that a Number holds exactly.
\<close>

fun decimal :: "nat \<Rightarrow> string" where
  "decimal n =
     (if n < 10 then [char_of (48 + n)]
      else decimal (n div 10) @ [char_of (48 + n mod 10)])"

declare decimal.simps [simp del]

definition endsNumeral :: "string \<Rightarrow> bool" where
  "endsNumeral rest =
     (case rest of
        [] \<Rightarrow> True
      | c # _ \<Rightarrow> \<not> isRadixDigit 10 c \<and> c \<noteq> CHR ''x'' \<and> c \<noteq> CHR ''X'')"

definition integerPart :: "jsval \<Rightarrow> nat \<Rightarrow> bool" where
  "integerPart v n =
     (n < 2 ^ 53
      \<and> startsWith (decimal n) (toString v)
      \<and> endsNumeral (drop (length (decimal n)) (toString v)))"

text \<open>The primary selector of a group is its first one.\<close>

definition spec_primaryMatches :: "'el page \<Rightarrow> string \<Rightarrow> bool" where
  "spec_primaryMatches pg tag =
     (case selectorsOf tag of
        [] \<Rightarrow> False
      | s # _ \<Rightarrow> list_ex (selectorMatches pg s) (elements pg))"

subsection \<open>Example pages\<close>

datatype node = Body | HeaderElement | HeaderDiv

text \<open>
  A page without AMD loader whose first element carries the id \<^verbatim>\<open>header\<close> and whose
  second element is a \<^verbatim>\<open>header\<close> element; both are visible.
\<close>

definition headerPage :: "node page" where
  "headerPage =
     \<lparr>elements = [HeaderDiv, HeaderElement],
      selectorMatches =
        (\<lambda>s el. (s = ''#header'' \<and> el = HeaderDiv) \<or> (s = ''header'' \<and> el = HeaderElement)),
      amd = False,
      isVisible = (\<lambda>el. True),
      getBoundingClientRect =
        (\<lambda>el. \<lparr>rectLeft = 0, rectTop = 0, rectWidth = 100, rectHeight = 50\<rparr>),
      getComputedStyle = (\<lambda>el p. Str ''0px'')\<rparr>"

text \<open>A page that uses an AMD loader and whose body is not visible.\<close>

definition amdPage :: "node page" where
  "amdPage =
     \<lparr>elements = [Body],
      selectorMatches = (\<lambda>s el. s = ''body''),
      amd = True,
      isVisible = (\<lambda>el. False),
      getBoundingClientRect =
        (\<lambda>el. \<lparr>rectLeft = 0, rectTop = 0, rectWidth = 100, rectHeight = 50\<rparr>),
      getComputedStyle = (\<lambda>el p. Str ''0px'')\<rparr>"

text \<open>A page whose body has a 100 by 50 rectangle and 5px of padding left and right.\<close>

definition paddedPage :: "node page" where
  "paddedPage =
     \<lparr>elements = [Body],
      selectorMatches = (\<lambda>s el. s = ''body''),
      amd = False,
      isVisible = (\<lambda>el. True),
      getBoundingClientRect =
        (\<lambda>el. \<lparr>rectLeft = 21 / 2, rectTop = 81 / 4, rectWidth = 100, rectHeight = 50\<rparr>),
      getComputedStyle =
        (\<lambda>el p. if p = ''padding-left'' \<or> p = ''padding-right'' then Str ''5px''
                 else Str ''0px'')\<rparr>"

text \<open>The same body with 5.5px of padding left and right.\<close>

definition fracPage :: "node page" where
  "fracPage =
     \<lparr>elements = [Body],
      selectorMatches = (\<lambda>s el. s = ''body''),
      amd = False,
      isVisible = (\<lambda>el. True),
      getBoundingClientRect =
        (\<lambda>el. \<lparr>rectLeft = 21 / 2, rectTop = 81 / 4, rectWidth = 100, rectHeight = 50\<rparr>),
      getComputedStyle =
        (\<lambda>el p. if p = ''padding-left'' \<or> p = ''padding-right'' then Str ''5.5px''
                 else Str ''0px'')\<rparr>"

text \<open>A page with a single element, matched by \<^verbatim>\<open>#header\<close> only.\<close>

definition idOnlyPage :: "node page" where
  "idOnlyPage =
     \<lparr>elements = [HeaderDiv],
      selectorMatches = (\<lambda>s el. s = ''#header''),
      amd = False,
      isVisible = (\<lambda>el. True),
      getBoundingClientRect =
        (\<lambda>el. \<lparr>rectLeft = 0, rectTop = 0, rectWidth = 100, rectHeight = 50\<rparr>),
      getComputedStyle = (\<lambda>el p. Str ''none'')\<rparr>"

section \<open>The colour extraction fan-out\<close>

text \<open>
  The files of the run directory, as far as \<^verbatim>\<open>fs.stat\<close> shows them: the size of every
  existing file. \<^verbatim>\<open>fs.stat\<close> calls back with an error and no stats for a missing
  file, and with no error and the stats otherwise.
\<close>

type_synonym filesystem = "string \<rightharpoonup> nat"

definition fs_stat :: "filesystem \<Rightarrow> string \<Rightarrow> bool \<times> nat option" where
  "fs_stat fs path = (case fs path of None \<Rightarrow> (True, None) | Some sz \<Rightarrow> (False, Some sz))"

text \<open>
  The code calls \<^verbatim>\<open>fs.unlink( path )\<close> without a callback. A Node.js runtime before
  version 10 removes the file all the same; from version 10 on the call throws a
  TypeError for the missing callback before anything is removed. The runtime is a
  parameter of the model.
\<close>

datatype runtime = CallbackOptional | CallbackRequired

definition fs_unlink :: "runtime \<Rightarrow> filesystem \<Rightarrow> string \<Rightarrow> error + filesystem" where
  "fs_unlink rt fs path =
     (case rt of
        CallbackOptional \<Rightarrow> Inr (fs(path := None))
      | CallbackRequired \<Rightarrow> Inl TypeError)"

definition pngPath :: "string \<Rightarrow> string \<Rightarrow> string" where
  "pngPath dir tagSafe = dir @ ''/'' @ tagSafe @ ''.png''"

text \<open>The object \<^verbatim>\<open>{ tag : tagSafe, colors : _colors }\<close>.\<close>

record 'c colorResult =
  resultTag :: string
  resultColors :: 'c

text \<open>
  \<^verbatim>\<open>promiseRelevantColors\<close>, with the colour extraction capability as a parameter: it
  calls back with the colours of an image, or without any (\<open>None\<close>), and then the
  promise is never settled. An error thrown by \<^verbatim>\<open>fs.unlink\<close> leaves the callback of
  \<^verbatim>\<open>fs.stat\<close> before \<^verbatim>\<open>resolve( null )\<close> is reached: the promise is never settled
  either. The result is how the promise ends, \<open>None\<close> standing for \<^verbatim>\<open>null\<close>, and the
  files afterwards.
\<close>

definition promiseRelevantColors ::
  "runtime \<Rightarrow> (string \<Rightarrow> 'c option) \<Rightarrow> string \<Rightarrow> string \<Rightarrow> filesystem
     \<Rightarrow> 'c colorResult option settlement \<times> filesystem" where
  "promiseRelevantColors rt getColors dir tag fs =
     (case buildTagSafe tag of
        Inl e \<Rightarrow> (Rejects e, fs)
      | Inr tagSafe \<Rightarrow>
          (let path = pngPath dir tagSafe;
               (err, stats) = fs_stat fs path
           in if \<not> err \<and> (case stats of None \<Rightarrow> False | Some sz \<Rightarrow> sz > 0)
              then (case getColors path of
                      Some cs \<Rightarrow> (Resolves (Some \<lparr>resultTag = tagSafe, resultColors = cs\<rparr>), fs)
                    | None \<Rightarrow> (NeverSettles, fs))
              else if (case stats of None \<Rightarrow> False | Some sz \<Rightarrow> sz = 0)
              then (case fs_unlink rt fs path of
                      Inl e \<Rightarrow> (NeverSettles, fs)
                    | Inr fs' \<Rightarrow> (Resolves None, fs'))
              else (Resolves None, fs)))"

subsection \<open>Promise.all\<close>

text \<open>
  \<^verbatim>\<open>Promise.all\<close> keeps one slot per input promise and a count of the promises still
  awaited. When the promise at index \<open>i\<close> is fulfilled its value is stored in slot
  \<open>i\<close> and the count decremented; at zero the result is fulfilled with the slots. The
  first rejection rejects the result. The promises settle in the order given by a list
  of indices; an empty input is fulfilled at once.
\<close>

record 'a allState =
  slots :: "'a option list"
  remaining :: nat
  outcome :: "'a list settlement"

definition allStart :: "nat \<Rightarrow> 'a allState" where
  "allStart n =
     \<lparr>slots = replicate n None, remaining = n,
      outcome = (if n = 0 then Resolves [] else NeverSettles)\<rparr>"

definition allSettle :: "'a settlement list \<Rightarrow> 'a allState \<Rightarrow> nat \<Rightarrow> 'a allState" where
  "allSettle ps st i =
     (if length ps \<le> i then st
      else (case ps ! i of
              Resolves v \<Rightarrow>
                (let vals = (slots st)[i := Some v];
                     rem = remaining st - 1
                 in \<lparr>slots = vals, remaining = rem,
                     outcome =
                       (if outcome st = NeverSettles \<and> rem = 0
                        then (case those vals of None \<Rightarrow> outcome st | Some vs \<Rightarrow> Resolves vs)
                        else outcome st)\<rparr>)
            | Rejects e \<Rightarrow>
                st\<lparr>outcome := (if outcome st = NeverSettles then Rejects e else outcome st)\<rparr>
            | NeverSettles \<Rightarrow> st))"

definition promiseAll :: "'a settlement list \<Rightarrow> nat list \<Rightarrow> 'a list settlement" where
  "promiseAll ps order = outcome (foldl (allSettle ps) (allStart (length ps)) order)"

subsection \<open>promiseAllRelevantColors\<close>

text \<open>\<^verbatim>\<open>function( e ){ return !!e; }\<close>: an object is truthy, \<^verbatim>\<open>null\<close> is not.\<close>

definition filterArray :: "'a option \<Rightarrow> bool" where
  "filterArray e = (e \<noteq> None)"

text \<open>
  \<^verbatim>\<open>Promise.all( config.tags.map( promiseRelevantColors ) )\<close> followed by the filter.
  How the task of a selector group ends is the parameter \<open>task\<close>; the tasks settle in
  the order \<open>order\<close>. The result is the list handed to \<^verbatim>\<open>writeRelavantColorsJSON\<close>.
\<close>

definition promiseAllRelevantColors ::
  "(string \<Rightarrow> 'r option settlement) \<Rightarrow> config \<Rightarrow> nat list \<Rightarrow> 'r option list settlement" where
  "promiseAllRelevantColors task cfg order =
     (case promiseAll (map task (tags cfg)) order of
        Resolves res \<Rightarrow> Resolves (filter filterArray res)
      | Rejects e \<Rightarrow> Rejects e
      | NeverSettles \<Rightarrow> NeverSettles)"

section \<open>The screenshot sequencer\<close>

text \<open>
  The browser session is a parameter: what \<^verbatim>\<open>evaluate( getBoundingRectangle, tag )\<close>
  ends with at step \<open>count\<close>, and how the chain \<^verbatim>\<open>scrollTo( ... ).screenshot( ... )\<close>
  of that step ends. The calls made on the session are recorded, each with the index of
  the region it is made for.
\<close>

record browser =
  evaluateRect :: "nat \<Rightarrow> string \<Rightarrow> boundingRect option settlement"
  capture :: "nat \<Rightarrow> unit settlement"

datatype call =
  Evaluate nat string
| ScrollTo nat jsnum jsnum
| Screenshot nat string boundingRect
| End

text \<open>
  How the sequencing ends: the session is closed and the task resolved, an error is
  thrown or a rejection left unhandled, or an operation of the session never completes.
\<close>

datatype sequencing = Closed | Unhandled error | Hung

definition captureCalls :: "nat \<Rightarrow> string \<Rightarrow> boundingRect option \<Rightarrow> call list" where
  "captureCalls count path rect =
     (case rect of
        None \<Rightarrow> []
      | Some r \<Rightarrow> [ScrollTo count (boxY r) (boxX r), Screenshot count path r])"

text \<open>
  \<^verbatim>\<open>getScreenshot\<close>. Beyond the last index \<^verbatim>\<open>config.tags[ count ]\<close> is
  \<^verbatim>\<open>undefined\<close> and \<^verbatim>\<open>buildTagSafe\<close> throws. The second \<^verbatim>\<open>then\<close> runs once the
  first has completed, with the screenshot if there is one.
\<close>

function getScreenshot :: "browser \<Rightarrow> config \<Rightarrow> string \<Rightarrow> nat \<Rightarrow> call list \<times> sequencing" where
  "getScreenshot br cfg dir count =
     (if length (tags cfg) \<le> count then ([], Unhandled TypeError)
      else
        (let tag = tags cfg ! count in
         case buildTagSafe tag of
           Inl e \<Rightarrow> ([], Unhandled e)
         | Inr tagSafe \<Rightarrow>
             (case evaluateRect br count tag of
                Rejects e \<Rightarrow> ([Evaluate count tag], Unhandled e)
              | NeverSettles \<Rightarrow> ([Evaluate count tag], Hung)
              | Resolves rect \<Rightarrow>
                  (let calls = Evaluate count tag # captureCalls count (pngPath dir tagSafe) rect
                   in case (case rect of None \<Rightarrow> Resolves () | Some r \<Rightarrow> capture br count) of
                        Rejects e \<Rightarrow> (calls, Unhandled e)
                      | NeverSettles \<Rightarrow> (calls, Hung)
                      | Resolves u \<Rightarrow>
                          if int count = int (length (tags cfg)) - 1
                          then (calls @ [End], Closed)
                          else (case getScreenshot br cfg dir (count + 1) of
                                  (rest, out) \<Rightarrow> (calls @ rest, out))))))"
  by pat_completeness auto
termination
  by (relation "measure (\<lambda>(br, cfg, dir, count). length (tags cfg) - count)") auto

declare getScreenshot.simps [simp del]

subsection \<open>The specification's wording, for comparison\<close>

text \<open>
  The calls of one region, when its operations complete: the evaluation, then, for a
  rectangle, the scroll and the screenshot. A plain iteration over the catalog makes
  the calls of the regions one after the other and closes the session at the end.
\<close>

definition regionCalls :: "browser \<Rightarrow> config \<Rightarrow> string \<Rightarrow> nat \<Rightarrow> call list" where
  "regionCalls br cfg dir i =
     (let tag = tags cfg ! i in
      case (buildTagSafe tag, evaluateRect br i tag) of
        (Inr regionId, Resolves (Some r)) \<Rightarrow>
          [Evaluate i tag,
           ScrollTo i (boxY r) (boxX r),
           Screenshot i (dir @ ''/'' @ regionId @ ''.png'') r]
      | _ \<Rightarrow> [Evaluate i tag])"

definition spec_sequence :: "browser \<Rightarrow> config \<Rightarrow> string \<Rightarrow> call list" where
  "spec_sequence br cfg dir =
     concat (map (regionCalls br cfg dir) [0 ..< length (tags cfg)]) @ [End]"

text \<open>The region a call is made for; closing the session comes after all \<open>n\<close> regions.\<close>

fun callIndex :: "nat \<Rightarrow> call \<Rightarrow> nat" where
  "callIndex n (Evaluate i tag) = i"
| "callIndex n (ScrollTo i sy sx) = i"
| "callIndex n (Screenshot i path rect) = i"
| "callIndex n End = n"

text \<open>
  The capture step of region \<open>i\<close> has completed: the evaluation has returned, and with a
  rectangle the scroll and the screenshot have completed too.
\<close>

definition regionCompleted :: "browser \<Rightarrow> config \<Rightarrow> nat \<Rightarrow> bool" where
  "regionCompleted br cfg i =
     (case evaluateRect br i (tags cfg ! i) of
        Resolves None \<Rightarrow> True
      | Resolves (Some r) \<Rightarrow> capture br i = Resolves ()
      | _ \<Rightarrow> False)"

text \<open>
  Every call of the trace is made only after the capture steps of all earlier regions
  have completed; closing the session counts as a call after the last region.
\<close>

definition afterCompletion :: "browser \<Rightarrow> config \<Rightarrow> call list \<Rightarrow> bool" where
  "afterCompletion br cfg trace =
     list_all (\<lambda>c. list_all (regionCompleted br cfg) [0 ..< callIndex (length (tags cfg)) c])
       trace"

text \<open>Every operation of the session completes.\<close>

definition allComplete :: "browser \<Rightarrow> config \<Rightarrow> bool" where
  "allComplete br cfg = list_all (regionCompleted br cfg) [0 ..< length (tags cfg)]"

section \<open>Auxiliary notions and examples\<close>

text \<open>The slots of \<^verbatim>\<open>Promise.all\<close> once the promises listed in \<open>done\<close> are fulfilled.\<close>

definition slotsAfter :: "'a list \<Rightarrow> nat list \<Rightarrow> 'a option list" where
  "slotsAfter vs done = map (\<lambda>i. if i \<in> set done then Some (vs ! i) else None) [0 ..< length vs]"

text \<open>
  What holds of the state of \<^verbatim>\<open>Promise.all\<close> whatever the order of settlement: a
  filled slot holds the value of its own promise, and a fulfilled result lists the values
  of all promises in input order.
\<close>

definition allSound :: "'a settlement list \<Rightarrow> 'a allState \<Rightarrow> bool" where
  "allSound ps st \<longleftrightarrow>
     length (slots st) = length ps
     \<and> (\<forall>i v. i < length ps \<and> slots st ! i = Some v \<longrightarrow> ps ! i = Resolves v)
     \<and> (\<forall>vs. outcome st = Resolves vs \<longrightarrow> ps = map Resolves vs)"

text \<open>
  The calls \<^verbatim>\<open>getScreenshot\<close> makes for the region at \<open>count\<close>, and how the chain
  stops there if it does.
\<close>

definition regionStep :: "browser \<Rightarrow> config \<Rightarrow> string \<Rightarrow> nat \<Rightarrow> call list \<times> sequencing option" where
  "regionStep br cfg dir count =
     (let tag = tags cfg ! count in
      case buildTagSafe tag of
        Inl e \<Rightarrow> ([], Some (Unhandled e))
      | Inr tagSafe \<Rightarrow>
          (case evaluateRect br count tag of
             Rejects e \<Rightarrow> ([Evaluate count tag], Some (Unhandled e))
           | NeverSettles \<Rightarrow> ([Evaluate count tag], Some Hung)
           | Resolves rect \<Rightarrow>
               (let calls = Evaluate count tag # captureCalls count (pngPath dir tagSafe) rect
                in case (case rect of None \<Rightarrow> Resolves () | Some r \<Rightarrow> capture br count) of
                     Rejects e \<Rightarrow> (calls, Some (Unhandled e))
                   | NeverSettles \<Rightarrow> (calls, Some Hung)
                   | Resolves u \<Rightarrow> (calls, None))))"

text \<open>A catalog of three regions, and the run directory of \<^verbatim>\<open>http://example.com\<close>.\<close>

definition threeTags :: config where
  "threeTags = \<lparr>tags = [''a'', ''b'', ''c''], props = []\<rparr>"

definition runDir :: string where
  "runDir = screenshotDir ''http://example.com''"

text \<open>
  A catalog of two regions with the files of its run directory: a screenshot of the body
  and an empty file for the header. The colour extraction finds one colour in any image.
\<close>

definition bodyAndHeader :: config where
  "bodyAndHeader = \<lparr>tags = [''body'', ''header, #header''], props = []\<rparr>"

definition exampleFiles :: filesystem where
  "exampleFiles =
     [''./data/example.com/body.png'' \<mapsto> 2048, ''./data/example.com/header.png'' \<mapsto> 0]"

definition exampleColors :: "string \<Rightarrow> string list option" where
  "exampleColors path = Some [''rgb(255, 255, 255)'']"

text \<open>A browser session in which only the selector \<^verbatim>\<open>b\<close> resolves to a rectangle.\<close>

definition sampleRect :: boundingRect where
  "sampleRect = \<lparr>boxX = Num 0, boxY = Num 40, boxWidth = Num 110, boxHeight = Num 50\<rparr>"

definition onlyB :: browser where
  "onlyB =
     \<lparr>evaluateRect = (\<lambda>count tag. Resolves (if tag = ''b'' then Some sampleRect else None)),
      capture = (\<lambda>count. Resolves ())\<rparr>"

text \<open>The same session, except that no screenshot ever completes.\<close>

definition stalledB :: browser where
  "stalledB =
     \<lparr>evaluateRect = (\<lambda>count tag. Resolves (if tag = ''b'' then Some sampleRect else None)),
      capture = (\<lambda>count. NeverSettles)\<rparr>"

section \<open>Properties of the naming utilities\<close>

lemma split_takeWhile:
  "split sep s = takeWhile (\<lambda>c. c \<noteq> sep) s # tl (split sep s)"
  by (induction s) (auto split: list.splits)

lemma buildTagSafe_firstSelector:
  "buildTagSafe tag = Inr (replaceFirst CHR '' '' CHR ''-'' (spec_firstSelector tag))"
proof -
  obtain ws where "split CHR '','' tag = spec_firstSelector tag # ws"
    unfolding spec_firstSelector_def using split_takeWhile by blast
  then show ?thesis by (simp add: buildTagSafe_def)
qed

lemma replaceFirst_absent: "a \<notin> set s \<Longrightarrow> replaceFirst a b s = s"
  by (induction s) auto

lemma replaceFirst_once:
  "count_list s a \<le> 1 \<Longrightarrow> replaceFirst a b s = map (\<lambda>c. if c = a then b else c) s"
proof (induction s)
  case Nil
  then show ?case by simp
next
  case (Cons c cs)
  show ?case
  proof (cases "c = a")
    case True
    with Cons.prems have "count_list cs a = 0" by simp
    then have "a \<notin> set cs" by (simp add: count_list_0_iff)
    then have "map (\<lambda>c. if c = a then b else c) cs = cs"
      by (induction cs) auto
    with True show ?thesis by simp
  next
    case False
    with Cons show ?thesis by simp
  qed
qed

subsection \<open>buildUrlFileName\<close>

lemma startsWith_set: "startsWith p s \<Longrightarrow> set p \<subseteq> set s"
  by (induction p s rule: startsWith.induct) auto

lemma removeFirstScheme_no_slash:
  "CHR ''/'' \<notin> set s \<Longrightarrow> removeFirstScheme s = s"
proof (induction s)
  case Nil
  then show ?case by simp
next
  case (Cons c cs)
  have "\<not> startsWith ''https://'' (c # cs)"
    using startsWith_set [of "''https://''" "c # cs"] Cons.prems by auto
  moreover have "\<not> startsWith ''http://'' (c # cs)"
    using startsWith_set [of "''http://''" "c # cs"] Cons.prems by auto
  ultimately show ?case using Cons by (simp del: startsWith.simps)
qed

lemma replaceAll_absent: "a \<notin> set s \<Longrightarrow> replaceAll a b s = s"
  unfolding replaceAll_def by (induction s) auto

lemma replaceAll_removes: "a \<noteq> b \<Longrightarrow> a \<notin> set (replaceAll a b s)"
  unfolding replaceAll_def by (induction s) auto

lemma set_trimHyphen: "set (trimHyphen s) \<subseteq> set s"
  unfolding trimHyphen_def by (auto dest: in_set_butlastD)

lemma buildUrlFileName_no_slash: "CHR ''/'' \<notin> set (buildUrlFileName url)"
proof -
  have "CHR ''/'' \<notin> set (replaceAll CHR ''/'' CHR ''-'' (removeFirstScheme url))"
    by (rule replaceAll_removes) simp
  then show ?thesis
    unfolding buildUrlFileName_def using set_trimHyphen by blast
qed

lemma buildUrlFileName_fixed:
  "CHR ''/'' \<notin> set s \<Longrightarrow> buildUrlFileName s = trimHyphen s"
  by (simp add: buildUrlFileName_def removeFirstScheme_no_slash replaceAll_absent)

lemma trimHyphen_id_iff:
  "trimHyphen s = s \<longleftrightarrow> \<not> (s \<noteq> [] \<and> last s = CHR ''-'')"
proof -
  have "s \<noteq> [] \<Longrightarrow> butlast s \<noteq> s"
    by (metis length_butlast diff_less length_greater_0_conv less_numeral_extra(1) nat_neq_iff)
  then show ?thesis unfolding trimHyphen_def by auto
qed

lemma removeFirstScheme_leading:
  "hasHttpScheme url \<Longrightarrow> removeFirstScheme url = spec_stripScheme url"
  by (cases url) (auto simp: hasHttpScheme_def spec_stripScheme_def)

lemma removeFirstScheme_absent:
  "\<not> mentionsHttpScheme url \<Longrightarrow> removeFirstScheme url = url"
  by (induction url) (simp_all del: startsWith.simps)

lemma spec_stripScheme_absent:
  "\<not> mentionsHttpScheme url \<Longrightarrow> spec_stripScheme url = url"
  by (cases url) (simp_all add: spec_stripScheme_def del: startsWith.simps)

text \<open>
  C6, as stated: for every target URL the scheme \<^verbatim>\<open>http\<close> or \<^verbatim>\<open>https\<close> is
  stripped, every slash replaced and a trailing hyphen trimmed. The pattern of the code
  is not anchored at the start of the URL and knows lower case only: in the URL
  \<^verbatim>\<open>file:///srv/http://a\<close>, which has no such scheme to strip, it removes the
  \<^verbatim>\<open>http://\<close> of the path, and it leaves the scheme of \<^verbatim>\<open>HTTP://Example.com/\<close> in
  place.
\<close>

theorem screenshotDir_scheme_counterexample:
  "screenshotDir ''file:///srv/http://a'' = ''./data/file:---srv-a''
   \<and> spec_runDir ''file:///srv/http://a'' = ''./data/file:---srv-http:--a''
   \<and> screenshotDir ''HTTP://Example.com/'' = ''./data/HTTP:--Example.com''"
  by (simp add: screenshotDir_def spec_runDir_def spec_stripScheme_def buildUrlFileName_def
      trimHyphen_def replaceAll_def)

text \<open>
  C6, amended. For a target URL that begins with \<^verbatim>\<open>http://\<close> or \<^verbatim>\<open>https://\<close> in
  lower case, and for one in which neither occurs at all, the run directory is
  \<^verbatim>\<open>./data/\<close> followed by the URL with that leading scheme stripped, every slash
  replaced by a hyphen and one trailing hyphen trimmed. In particular
  \<^verbatim>\<open>https://example.com/path/\<close> gives \<^verbatim>\<open>./data/example.com-path\<close> and
  \<^verbatim>\<open>http://example.com\<close> gives \<^verbatim>\<open>./data/example.com\<close>.
\<close>

theorem screenshotDir_spec:
  "(hasHttpScheme url \<or> \<not> mentionsHttpScheme url \<longrightarrow> screenshotDir url = spec_runDir url)
   \<and> screenshotDir ''https://example.com/path/'' = ''./data/example.com-path''
   \<and> screenshotDir ''http://example.com'' = ''./data/example.com''"
proof (intro conjI impI)
  assume "hasHttpScheme url \<or> \<not> mentionsHttpScheme url"
  then have "removeFirstScheme url = spec_stripScheme url"
    using removeFirstScheme_leading removeFirstScheme_absent spec_stripScheme_absent by metis
  then show "screenshotDir url = spec_runDir url"
    by (simp add: screenshotDir_def spec_runDir_def buildUrlFileName_def)
next
  show "screenshotDir ''https://example.com/path/'' = ''./data/example.com-path''"
    by (simp add: screenshotDir_def buildUrlFileName_def trimHyphen_def replaceAll_def)
next
  show "screenshotDir ''http://example.com'' = ''./data/example.com''"
    by (simp add: screenshotDir_def buildUrlFileName_def trimHyphen_def replaceAll_def)
qed

theorem screenshotDir_spec_witness:
  "hasHttpScheme ''https://example.com/path/''
   \<and> screenshotDir ''https://example.com/path/'' = spec_runDir ''https://example.com/path/''
   \<and> spec_runDir ''https://example.com/path/'' = ''./data/example.com-path''"
proof -
  have h: "hasHttpScheme ''https://example.com/path/''"
    by (simp add: hasHttpScheme_def)
  have s: "spec_runDir ''https://example.com/path/'' = ''./data/example.com-path''"
    by (simp add: spec_runDir_def spec_stripScheme_def trimHyphen_def replaceAll_def)
  show ?thesis
    using screenshotDir_spec [of "''https://example.com/path/''"] h s by simp
qed

text \<open>
  C10, as stated: applying buildUrlFileName to its own output returns the output
  unchanged. It fails where the first output still ends with a hyphen:
  \<^verbatim>\<open>http://example.com//\<close> gives \<^verbatim>\<open>example.com-\<close>, which a second application
  shortens to \<^verbatim>\<open>example.com\<close>.
\<close>

theorem buildUrlFileName_idempotent_counterexample:
  "buildUrlFileName (buildUrlFileName ''http://example.com//'')
     \<noteq> buildUrlFileName ''http://example.com//''"
  by (simp add: buildUrlFileName_def trimHyphen_def replaceAll_def)

text \<open>
  C10, amended. The output of buildUrlFileName contains no slash (hence no scheme), so a
  second application only trims one more trailing hyphen; it returns the output
  unchanged exactly when that output does not end with a hyphen.
\<close>

theorem buildUrlFileName_twice:
  "buildUrlFileName (buildUrlFileName url) = trimHyphen (buildUrlFileName url)
   \<and> CHR ''/'' \<notin> set (buildUrlFileName url)
   \<and> (buildUrlFileName (buildUrlFileName url) = buildUrlFileName url
        \<longleftrightarrow> \<not> (buildUrlFileName url \<noteq> [] \<and> last (buildUrlFileName url) = CHR ''-''))"
  using buildUrlFileName_no_slash [of url]
  by (simp add: buildUrlFileName_fixed trimHyphen_id_iff)

theorem buildUrlFileName_twice_witness:
  "buildUrlFileName ''https://example.com/path/'' = ''example.com-path''
   \<and> buildUrlFileName (buildUrlFileName ''https://example.com/path/'')
       = buildUrlFileName ''https://example.com/path/''"
proof -
  have e: "buildUrlFileName ''https://example.com/path/'' = ''example.com-path''"
    by (simp add: buildUrlFileName_def trimHyphen_def replaceAll_def)
  show ?thesis
    using buildUrlFileName_twice [of "''https://example.com/path/''"]
    by (simp add: e trimHyphen_def)
qed

subsection \<open>buildTagSafe\<close>

text \<open>
  On the shipped catalog, where no first selector holds white space, the identifier is
  the first selector with all white space removed.
\<close>

lemma buildTagSafe_shipped:
  "list_all (\<lambda>tag. buildTagSafe tag = Inr (spec_regionId tag)) (tags shippedConfig)"
  by (simp add: shippedConfig_def buildTagSafe_def spec_regionId_def spec_firstSelector_def
      isWhitespace_def)

text \<open>
  C8, as stated: the region identifier is the first selector with all white space
  removed. The code replaces a space by a hyphen instead: for the group
  \<^verbatim>\<open>nav ul, #nav\<close> it gives \<^verbatim>\<open>nav-ul\<close>, not \<^verbatim>\<open>navul\<close>.
\<close>

theorem buildTagSafe_whitespace_counterexample:
  "buildTagSafe ''nav ul, #nav'' = Inr ''nav-ul''
   \<and> spec_regionId ''nav ul, #nav'' = ''navul''
   \<and> buildTagSafe ''nav ul, #nav'' \<noteq> Inr (spec_regionId ''nav ul, #nav'')"
  by (simp add: buildTagSafe_def spec_regionId_def spec_firstSelector_def isWhitespace_def)

text \<open>
  C8, amended. For a selector group whose first selector (the text before the first
  comma) holds at most one space, the region identifier is that first selector with the
  space replaced by a hyphen; without a space it is the first selector itself.
\<close>

theorem buildTagSafe_one_space:
  "count_list (spec_firstSelector tag) CHR '' '' \<le> 1 \<Longrightarrow>
   buildTagSafe tag = Inr (replaceAll CHR '' '' CHR ''-'' (spec_firstSelector tag))"
  by (simp add: buildTagSafe_firstSelector replaceFirst_once replaceAll_def)

theorem buildTagSafe_one_space_witness:
  "count_list (spec_firstSelector ''nav ul, #nav'') CHR '' '' \<le> 1
   \<and> buildTagSafe ''nav ul, #nav'' = Inr ''nav-ul''"
proof -
  have h: "count_list (spec_firstSelector ''nav ul, #nav'') CHR '' '' \<le> 1"
    by (simp add: spec_firstSelector_def)
  show ?thesis
    using buildTagSafe_one_space [OF h] h by (simp add: spec_firstSelector_def replaceAll_def)
qed

section \<open>Properties of the number model\<close>

text \<open>Integers below \<open>2 ^ 53\<close> are values of the format: rounding leaves them as they are.\<close>

lemma roundHalfEven_of_int: "roundHalfEven (of_int m) = m"
  by (simp add: roundHalfEven_def)

lemma binade_bound:
  assumes "x \<noteq> 0" and "\<bar>x\<bar> < 2 ^ 53"
  shows "binade x \<le> 52"
proof -
  have "log 2 \<bar>x\<bar> < 53"
    using assms by (simp add: log_less_iff)
  then have "\<lfloor>log 2 \<bar>x\<bar>\<rfloor> < 53" by (simp add: floor_less_iff)
  then show ?thesis by (simp add: binade_def)
qed

lemma roundDouble_of_int:
  assumes "\<bar>k\<bar> < 2 ^ 53"
  shows "roundDouble (of_int k) = of_int k"
proof (cases "k = 0")
  case True
  then show ?thesis by (simp add: roundDouble_def)
next
  case False
  let ?x = "real_of_int k"
  have x: "?x \<noteq> 0" using False by simp
  have "\<bar>?x\<bar> < 2 ^ 53"
    using assms by (metis of_int_abs of_int_less_numeral_power_cancel_iff)
  then have e: "binade ?x \<le> 52" using x by (rule binade_bound [rotated])
  define n where "n = nat (52 - binade ?x)"
  have en: "of_int (binade ?x) - 52 = - real n"
    using e by (simp add: n_def)
  have ulp: "(2::real) powr (of_int (binade ?x) - 52) = 1 / 2 ^ n"
    unfolding en by (simp add: powr_minus powr_realpow inverse_eq_divide)
  have "?x / (1 / 2 ^ n) = of_int (k * 2 ^ n)" by simp
  then have "roundHalfEven (?x / (1 / 2 ^ n)) = k * 2 ^ n"
    by (simp only: roundHalfEven_of_int)
  then show ?thesis
    using x by (simp add: roundDouble_def ulp)
qed

lemma roundDouble_of_nat: "n < 2 ^ 53 \<Longrightarrow> roundDouble (real n) = real n"
  using roundDouble_of_int [of "int n"] by (simp add: nat_less_iff [symmetric] flip: of_nat_power)

lemma roundDouble_numeral [simp]:
  "numeral w < (2 ^ 53 :: int) \<Longrightarrow> roundDouble (numeral w) = numeral w"
  using roundDouble_of_int [of "numeral w"] by simp

lemma roundDouble_0 [simp]: "roundDouble 0 = 0"
  by (simp add: roundDouble_def)

lemma roundDouble_1 [simp]: "roundDouble 1 = 1"
  using roundDouble_of_int [of 1] by simp

text \<open>
  A sum that the format does not hold is rounded: just below 2 the tie goes up to 2, so
  that a width of \<open>1 - 2 ^ -53\<close> with one pixel of padding has the floor 2.
\<close>

lemma binade_unit: "1 \<le> x \<Longrightarrow> x < 2 \<Longrightarrow> binade x = 0"
proof -
  assume a: "1 \<le> x" and b: "x < 2"
  have "0 \<le> log 2 x" using a by simp
  moreover have "log 2 x < 1" using a b by (simp add: log_less_iff)
  ultimately show ?thesis using a by (simp add: binade_def floor_eq_iff)
qed

lemma roundDouble_tie: "roundDouble (2 - 1 / 2 ^ 53) = 2"
proof -
  let ?x = "2 - 1 / 2 ^ 53 :: real"
  have b: "binade ?x = 0" by (rule binade_unit) simp_all
  have u: "(2::real) powr (of_int (binade ?x) - 52) = 1 / 2 ^ 52"
    unfolding b by (simp add: powr_minus powr_realpow inverse_eq_divide powr_numeral)
  have q: "?x / (1 / 2 ^ 52) = of_int (2 ^ 53 - 1) + 1 / 2" by simp
  have r: "roundHalfEven (of_int (2 ^ 53 - 1) + 1 / 2) = 2 ^ 53"
    by (simp add: roundHalfEven_def)
  show ?thesis
    by (simp only: roundDouble_def u q r Let_def) simp
qed

section \<open>Properties of the in-page functions\<close>

subsection \<open>Selector resolution\<close>

lemma selectorsOf_header: "selectorsOf ''header, #header'' = [''header'', ''#header'']"
  by (simp add: selectorsOf_def trim_def isWhitespace_def)

lemma selectorsOf_body: "selectorsOf ''body'' = [''body'']"
  by (simp add: selectorsOf_def trim_def isWhitespace_def)

lemma resolveElement_sync:
  "\<not> amd pg \<Longrightarrow> resolveElement pg els = find (isVisible pg) els"
  by (induction els) (auto simp: checkVisible_def)

lemma find_filter: "find P (filter Q xs) = find (\<lambda>x. Q x \<and> P x) xs"
  by (induction xs) auto

text \<open>
  C2, as stated: the resolved element is the first visible one when the candidates are
  ordered by the position of the matching selector in the group and then by tree order.
  On a page whose first element matches the second selector \<^verbatim>\<open>#header\<close> and whose
  second element matches the first selector \<^verbatim>\<open>header\<close>, both visible, that order
  puts the second element first, while the code resolves the first element.
\<close>

theorem resolve_selector_order_counterexample:
  "resolveElement headerPage (querySelectorAll headerPage ''header, #header'') = Some HeaderDiv
   \<and> spec_resolve headerPage ''header, #header'' = Some HeaderElement"
  by (simp add: headerPage_def querySelectorAll_def groupMatches_def selectorsOf_header
      checkVisible_def spec_resolve_def spec_candidates_def)

text \<open>
  C2, amended. On a page without AMD loader, where the visibility check is synchronous,
  the resolved element is the first element in tree order that matches some selector of
  the group and is visible; the result is null exactly when no matched element is
  visible, and the bounding rectangle is computed for the resolved element.
\<close>

theorem resolveElement_dom_order:
  "\<not> amd pg \<Longrightarrow>
   resolveElement pg (querySelectorAll pg tag)
     = find (\<lambda>el. groupMatches pg tag el \<and> isVisible pg el) (elements pg)
   \<and> (resolveElement pg (querySelectorAll pg tag) = None
        \<longleftrightarrow> \<not> list_ex (isVisible pg) (querySelectorAll pg tag))
   \<and> getBoundingRectangle pg tag
     = map_option (boundingBox pg) (resolveElement pg (querySelectorAll pg tag))"
  by (auto simp: resolveElement_sync querySelectorAll_def find_filter find_None_iff
      list_ex_iff getBoundingRectangle_def split: option.splits)

theorem resolveElement_dom_order_witness:
  "\<not> amd headerPage
   \<and> resolveElement headerPage (querySelectorAll headerPage ''header, #header'')
       = Some HeaderDiv
   \<and> find (\<lambda>el. groupMatches headerPage ''header, #header'' el \<and> isVisible headerPage el)
        (elements headerPage) = Some HeaderDiv"
proof -
  have h: "\<not> amd headerPage" by (simp add: headerPage_def)
  have f: "find (\<lambda>el. groupMatches headerPage ''header, #header'' el \<and> isVisible headerPage el)
             (elements headerPage) = Some HeaderDiv"
    by (simp add: headerPage_def groupMatches_def selectorsOf_header)
  show ?thesis
    using resolveElement_dom_order [OF h, of "''header, #header''"] h f by simp
qed

text \<open>
  C3. Under an AMD loader \<^verbatim>\<open>checkVisible\<close> returns a Promise, and the loop tests the
  Promise itself, which is truthy, without awaiting it: on a page whose only matched
  element is not visible, the element is accepted and its rectangle returned, although
  the promised visibility is false.
\<close>

theorem checkVisible_promise_accepted:
  "amd amdPage
   \<and> querySelectorAll amdPage ''body'' = [Body]
   \<and> isVisible amdPage Body = False
   \<and> checkVisible amdPage Body = Promised False
   \<and> resolveElement amdPage (querySelectorAll amdPage ''body'') = Some Body
   \<and> getBoundingRectangle amdPage ''body''
       = Some \<lparr>boxX = Num 0, boxY = Num 0, boxWidth = Num 100, boxHeight = Num 50\<rparr>"
  by (simp add: amdPage_def querySelectorAll_def groupMatches_def selectorsOf_body
      checkVisible_def getBoundingRectangle_def boundingBox_def parseInt_def toString_def
      isWhitespace_def isRadixDigit_def digitValue_def digitsValue_def)

subsection \<open>The padded bounding box\<close>

text \<open>What \<^verbatim>\<open>parseInt\<close> reads of a computed padding is its integer part.\<close>

lemma digitValue_digit: "d < 10 \<Longrightarrow> digitValue (char_of (48 + d)) = Some d"
  by (simp add: digitValue_def Let_def)

lemma decimal_digits: "c \<in> set (decimal n) \<Longrightarrow> \<exists>d::nat. d < 10 \<and> c = char_of (48 + d)"
proof (induction n rule: decimal.induct)
  case (1 n)
  show ?case
  proof (cases "n < 10")
    case True
    with "1.prems" show ?thesis by (subst (asm) decimal.simps) auto
  next
    case False
    with "1.prems" have "c \<in> set (decimal (n div 10)) \<or> c = char_of (48 + n mod 10)"
      by (subst (asm) decimal.simps) auto
    then show ?thesis
    proof
      assume "c \<in> set (decimal (n div 10))"
      with "1.IH" False show ?thesis by simp
    next
      assume "c = char_of (48 + n mod 10)"
      moreover have "n mod 10 < 10" by simp
      ultimately show ?thesis by blast
    qed
  qed
qed

lemma decimal_nonempty: "decimal n \<noteq> []"
  by (subst decimal.simps) simp

lemma digitsValue_snoc:
  "digitsValue r (ds @ [c]) = digitsValue r ds * r + (case digitValue c of None \<Rightarrow> 0 | Some d \<Rightarrow> d)"
  by (simp add: digitsValue_def)

lemma digitsValue_decimal: "digitsValue 10 (decimal n) = n"
proof (induction n rule: decimal.induct)
  case (1 n)
  show ?case
  proof (cases "n < 10")
    case True
    then show ?thesis
      by (subst decimal.simps) (simp add: digitsValue_def digitValue_digit)
  next
    case False
    have "digitsValue 10 (decimal (n div 10) @ [char_of (48 + n mod 10)])
            = (n div 10) * 10 + n mod 10"
      using "1.IH" False by (simp add: digitsValue_snoc digitValue_digit)
    with False show ?thesis by (subst decimal.simps) simp
  qed
qed

lemma startsWith_append: "startsWith p s \<Longrightarrow> s = p @ drop (length p) s"
  by (induction p s rule: startsWith.induct) auto

lemma digit_char:
  assumes "d < (10::nat)"
  shows "isRadixDigit 10 (char_of (48 + d))"
    and "\<not> isWhitespace (char_of (48 + d))"
    and "char_of (48 + d) \<noteq> CHR ''-''" and "char_of (48 + d) \<noteq> CHR ''+''"
    and "char_of (48 + d) \<noteq> CHR ''x''" and "char_of (48 + d) \<noteq> CHR ''X''"
proof -
  have v: "of_char (char_of (48 + d)) = 48 + d" using assms by simp
  show "isRadixDigit 10 (char_of (48 + d))"
    using assms by (simp add: isRadixDigit_def digitValue_digit)
  have ne: "char_of (48 + d) \<noteq> c" if "(of_char c :: nat) < 48 \<or> 57 < (of_char c :: nat)" for c
  proof
    assume "char_of (48 + d) = c"
    then have "(of_char c :: nat) = 48 + d" using v by simp
    with that assms show False by auto
  qed
  show "char_of (48 + d) \<noteq> CHR ''-''" and "char_of (48 + d) \<noteq> CHR ''+''"
    and "char_of (48 + d) \<noteq> CHR ''x''" and "char_of (48 + d) \<noteq> CHR ''X''"
    by (rule ne, simp)+
  show "\<not> isWhitespace (char_of (48 + d))"
    unfolding isWhitespace_def using ne [of "CHR '' ''"] ne [of "CHR 0x09"] ne [of "CHR 0x0A"]
      ne [of "CHR 0x0B"] ne [of "CHR 0x0C"] ne [of "CHR 0x0D"]
    by simp
qed

lemma takeWhile_numeral:
  assumes "\<forall>c \<in> set ds. isRadixDigit 10 c" and "endsNumeral rest"
  shows "takeWhile (isRadixDigit 10) (ds @ rest) = ds"
proof -
  have "takeWhile (isRadixDigit 10) rest = []"
    using assms(2) by (cases rest) (auto simp: endsNumeral_def)
  with assms(1) show ?thesis by (simp add: takeWhile_append2)
qed

lemma no_hex_prefix:
  assumes "\<forall>c \<in> set ds. c \<noteq> CHR ''x'' \<and> c \<noteq> CHR ''X''" and "ds \<noteq> []" and "endsNumeral rest"
  shows "\<not> startsWith ''0x'' (ds @ rest)" and "\<not> startsWith ''0X'' (ds @ rest)"
proof -
  obtain a ds' where ds: "ds = a # ds'" using assms(2) by (cases ds) auto
  show "\<not> startsWith ''0x'' (ds @ rest)"
  proof (cases ds')
    case Nil
    with ds assms(3) show ?thesis by (cases rest) (auto simp: endsNumeral_def)
  next
    case (Cons b ds'')
    with ds assms(1) show ?thesis by auto
  qed
  show "\<not> startsWith ''0X'' (ds @ rest)"
  proof (cases ds')
    case Nil
    with ds assms(3) show ?thesis by (cases rest) (auto simp: endsNumeral_def)
  next
    case (Cons b ds'')
    with ds assms(1) show ?thesis by auto
  qed
qed

lemma parseInt_integerPart:
  assumes "integerPart v n"
  shows "parseInt v = Num (real n)"
proof -
  define ds where "ds = decimal n"
  define rest where "rest = drop (length ds) (toString v)"
  from assms have n: "n < 2 ^ 53" and sw: "startsWith ds (toString v)" and en: "endsNumeral rest"
    by (simp_all add: integerPart_def ds_def rest_def)
  have s: "toString v = ds @ rest"
    unfolding rest_def using sw by (rule startsWith_append)
  have dig: "\<forall>c \<in> set ds. \<exists>d::nat. d < 10 \<and> c = char_of (48 + d)"
    unfolding ds_def using decimal_digits by blast
  have ne: "ds \<noteq> []" unfolding ds_def by (rule decimal_nonempty)
  then obtain a ds' where a: "ds = a # ds'" by (cases ds) auto
  then obtain d :: nat where d: "d < 10" "a = char_of (48 + d)" using dig by auto
  note dc = digit_char [OF d(1), folded d(2)]
  have w: "dropWhile isWhitespace (ds @ rest) = ds @ rest"
    using a dc(2) by simp
  have m: "\<not> startsWith ''-'' (ds @ rest)" "\<not> startsWith ''+'' (ds @ rest)"
    using a dc(3,4) by simp_all
  have nx: "\<forall>c \<in> set ds. c \<noteq> CHR ''x'' \<and> c \<noteq> CHR ''X''"
  proof
    fix c assume "c \<in> set ds"
    with dig obtain e :: nat where e: "e < 10" "c = char_of (48 + e)" by auto
    from digit_char(5,6) [OF e(1), folded e(2)]
    show "c \<noteq> CHR ''x'' \<and> c \<noteq> CHR ''X''" by simp
  qed
  have h: "\<not> startsWith ''0x'' (ds @ rest)" "\<not> startsWith ''0X'' (ds @ rest)"
    by (rule no_hex_prefix(1) [OF nx ne en], rule no_hex_prefix(2) [OF nx ne en])
  have dg: "\<forall>c \<in> set ds. isRadixDigit 10 c"
  proof
    fix c assume "c \<in> set ds"
    with dig obtain e :: nat where e: "e < 10" "c = char_of (48 + e)" by auto
    from digit_char(1) [OF e(1), folded e(2)] show "isRadixDigit 10 c" .
  qed
  have t: "takeWhile (isRadixDigit 10) (ds @ rest) = ds"
    using dg en by (rule takeWhile_numeral)
  have val: "digitsValue 10 ds = n" unfolding ds_def by (rule digitsValue_decimal)
  show ?thesis
    unfolding parseInt_def s
    by (simp add: Let_def w m h t ne val roundDouble_of_nat [OF n])
qed

text \<open>The fraction of a computed padding is not read, and without a digit there is no number.\<close>

lemma parseInt_5px: "parseInt (Str ''5px'') = Num 5"
  by (simp add: parseInt_def toString_def isWhitespace_def isRadixDigit_def digitValue_def
      digitsValue_def)

lemma parseInt_0px: "parseInt (Str ''0px'') = Num 0"
  by (simp add: parseInt_def toString_def isWhitespace_def isRadixDigit_def digitValue_def
      digitsValue_def)

lemma parseInt_fraction: "parseInt (Str ''5.5px'') = Num 5"
  by (simp add: parseInt_def toString_def isWhitespace_def isRadixDigit_def digitValue_def
      digitsValue_def)

lemma parseInt_undefined: "parseInt Undefined = NaN"
  by (simp add: parseInt_def toString_def isWhitespace_def isRadixDigit_def digitValue_def)

lemma spec_pixels_fraction: "spec_pixels (Str ''5.5px'') = 11 / 2"
  by (simp add: spec_pixels_def toString_def isRadixDigit_def digitValue_def digitsValue_def)

lemma spec_pixels_0px: "spec_pixels (Str ''0px'') = 0"
  by (simp add: spec_pixels_def toString_def isRadixDigit_def digitValue_def digitsValue_def)

lemma char_of_53: "char_of (53::nat) = CHR ''5''"
  by (rule injD [OF inj_of_char [where ?'a = nat]]) simp

lemma char_of_48: "char_of (48::nat) = CHR ''0''"
  by (rule injD [OF inj_of_char [where ?'a = nat]]) simp

lemma integerPart_5px: "integerPart (Str ''5px'') 5"
  by (simp add: integerPart_def decimal.simps toString_def endsNumeral_def isRadixDigit_def
      digitValue_def char_of_53)

lemma integerPart_fraction: "integerPart (Str ''5.5px'') 5"
  by (simp add: integerPart_def decimal.simps toString_def endsNumeral_def isRadixDigit_def
      digitValue_def char_of_53)

lemma integerPart_0px: "integerPart (Str ''0px'') 0"
  by (simp add: integerPart_def decimal.simps toString_def endsNumeral_def isRadixDigit_def
      digitValue_def char_of_48)

text \<open>
  C4, as stated: the width of the box is the floor of the width of the rectangle plus
  the computed paddings left and right. For a body of width 100 with computed paddings
  of 5.5px left and right that is 111, while the code, which reads the paddings with
  \<^verbatim>\<open>parseInt\<close>, returns 110.
\<close>

theorem boundingBox_fraction_counterexample:
  "boundingBox fracPage Body
     = \<lparr>boxX = Num 10, boxY = Num 20, boxWidth = Num 110, boxHeight = Num 50\<rparr>
   \<and> spec_boundingBox fracPage Body
     = \<lparr>boxX = Num 10, boxY = Num 20, boxWidth = Num 111, boxHeight = Num 50\<rparr>"
  by (simp add: fracPage_def boundingBox_def spec_boundingBox_def parseInt_fraction parseInt_0px
      spec_pixels_fraction spec_pixels_0px)

text \<open>
  C4, amended. For an element with layout rectangle (left, top, width, height) whose
  computed paddings have the integer parts pl, pr, pt, pb, which is what \<^verbatim>\<open>parseInt\<close>
  reads of them, the bounding box is x = floor(left), y = floor(top),
  width = floor(width + pl + pr) and height = floor(height + pt + pb), the sums being
  those of the host's Numbers: the exact sums wherever the format holds them. A 100 by
  50 rectangle with paddings 5px left and right and 0px top and bottom gives width 110
  and height 50. It is the box that \<^verbatim>\<open>getBoundingRectangle\<close> returns for the element
  it resolves.
\<close>

theorem boundingBox_padded:
  "(integerPart (getComputedStyle pg el ''padding-left'') pl
    \<and> integerPart (getComputedStyle pg el ''padding-right'') pr
    \<and> integerPart (getComputedStyle pg el ''padding-top'') pt
    \<and> integerPart (getComputedStyle pg el ''padding-bottom'') pb
    \<longrightarrow> boundingBox pg el =
          \<lparr>boxX = Num (of_int \<lfloor>rectLeft (getBoundingClientRect pg el)\<rfloor>),
           boxY = Num (of_int \<lfloor>rectTop (getBoundingClientRect pg el)\<rfloor>),
           boxWidth = Num (of_int \<lfloor>roundDouble (roundDouble
                        (rectWidth (getBoundingClientRect pg el) + real pl) + real pr)\<rfloor>),
           boxHeight = Num (of_int \<lfloor>roundDouble (roundDouble
                        (rectHeight (getBoundingClientRect pg el) + real pt) + real pb)\<rfloor>)\<rparr>
        \<and> (isDouble (rectWidth (getBoundingClientRect pg el) + real pl)
           \<and> isDouble (rectWidth (getBoundingClientRect pg el) + real pl + real pr)
           \<longrightarrow> boxWidth (boundingBox pg el)
                 = Num (of_int \<lfloor>rectWidth (getBoundingClientRect pg el)
                                  + real pl + real pr\<rfloor>))
        \<and> (isDouble (rectHeight (getBoundingClientRect pg el) + real pt)
           \<and> isDouble (rectHeight (getBoundingClientRect pg el) + real pt + real pb)
           \<longrightarrow> boxHeight (boundingBox pg el)
                 = Num (of_int \<lfloor>rectHeight (getBoundingClientRect pg el)
                                  + real pt + real pb\<rfloor>)))
   \<and> (rectWidth (getBoundingClientRect pg el) = 100
      \<and> rectHeight (getBoundingClientRect pg el) = 50
      \<and> getComputedStyle pg el ''padding-left'' = Str ''5px''
      \<and> getComputedStyle pg el ''padding-right'' = Str ''5px''
      \<and> getComputedStyle pg el ''padding-top'' = Str ''0px''
      \<and> getComputedStyle pg el ''padding-bottom'' = Str ''0px''
      \<longrightarrow> boxWidth (boundingBox pg el) = Num 110 \<and> boxHeight (boundingBox pg el) = Num 50)
   \<and> (resolveElement pg (querySelectorAll pg tag) = Some el
      \<longrightarrow> getBoundingRectangle pg tag = Some (boundingBox pg el))"
proof (intro conjI impI)
  assume a: "integerPart (getComputedStyle pg el ''padding-left'') pl
    \<and> integerPart (getComputedStyle pg el ''padding-right'') pr
    \<and> integerPart (getComputedStyle pg el ''padding-top'') pt
    \<and> integerPart (getComputedStyle pg el ''padding-bottom'') pb"
  then have p: "parseInt (getComputedStyle pg el ''padding-left'') = Num (real pl)"
    "parseInt (getComputedStyle pg el ''padding-right'') = Num (real pr)"
    "parseInt (getComputedStyle pg el ''padding-top'') = Num (real pt)"
    "parseInt (getComputedStyle pg el ''padding-bottom'') = Num (real pb)"
    by (simp_all add: parseInt_integerPart)
  show "boundingBox pg el =
          \<lparr>boxX = Num (of_int \<lfloor>rectLeft (getBoundingClientRect pg el)\<rfloor>),
           boxY = Num (of_int \<lfloor>rectTop (getBoundingClientRect pg el)\<rfloor>),
           boxWidth = Num (of_int \<lfloor>roundDouble (roundDouble
                        (rectWidth (getBoundingClientRect pg el) + real pl) + real pr)\<rfloor>),
           boxHeight = Num (of_int \<lfloor>roundDouble (roundDouble
                        (rectHeight (getBoundingClientRect pg el) + real pt) + real pb)\<rfloor>)\<rparr>"
    by (simp add: boundingBox_def Let_def p)
  {
    assume "isDouble (rectWidth (getBoundingClientRect pg el) + real pl)
           \<and> isDouble (rectWidth (getBoundingClientRect pg el) + real pl + real pr)"
    then show "boxWidth (boundingBox pg el)
                 = Num (of_int \<lfloor>rectWidth (getBoundingClientRect pg el)
                                  + real pl + real pr\<rfloor>)"
      by (simp add: boundingBox_def Let_def p isDouble_def)
  }
  {
    assume "isDouble (rectHeight (getBoundingClientRect pg el) + real pt)
           \<and> isDouble (rectHeight (getBoundingClientRect pg el) + real pt + real pb)"
    then show "boxHeight (boundingBox pg el)
                 = Num (of_int \<lfloor>rectHeight (getBoundingClientRect pg el)
                                  + real pt + real pb\<rfloor>)"
      by (simp add: boundingBox_def Let_def p isDouble_def)
  }
next
  assume a: "rectWidth (getBoundingClientRect pg el) = 100
      \<and> rectHeight (getBoundingClientRect pg el) = 50
      \<and> getComputedStyle pg el ''padding-left'' = Str ''5px''
      \<and> getComputedStyle pg el ''padding-right'' = Str ''5px''
      \<and> getComputedStyle pg el ''padding-top'' = Str ''0px''
      \<and> getComputedStyle pg el ''padding-bottom'' = Str ''0px''"
  then show "boxWidth (boundingBox pg el) = Num 110"
    by (simp add: boundingBox_def Let_def parseInt_5px parseInt_0px)
  from a show "boxHeight (boundingBox pg el) = Num 50"
    by (simp add: boundingBox_def Let_def parseInt_5px parseInt_0px)
next
  assume "resolveElement pg (querySelectorAll pg tag) = Some el"
  then show "getBoundingRectangle pg tag = Some (boundingBox pg el)"
    by (simp add: getBoundingRectangle_def)
qed

theorem boundingBox_padded_witness:
  "integerPart (getComputedStyle paddedPage Body ''padding-left'') 5
   \<and> integerPart (getComputedStyle paddedPage Body ''padding-right'') 5
   \<and> integerPart (getComputedStyle paddedPage Body ''padding-top'') 0
   \<and> integerPart (getComputedStyle paddedPage Body ''padding-bottom'') 0
   \<and> resolveElement paddedPage (querySelectorAll paddedPage ''body'') = Some Body
   \<and> getBoundingRectangle paddedPage ''body''
       = Some \<lparr>boxX = Num 10, boxY = Num 20, boxWidth = Num 110, boxHeight = Num 50\<rparr>"
proof -
  have r: "resolveElement paddedPage (querySelectorAll paddedPage ''body'') = Some Body"
    by (simp add: paddedPage_def querySelectorAll_def groupMatches_def selectorsOf_body
        checkVisible_def)
  have p: "integerPart (getComputedStyle paddedPage Body ''padding-left'') 5"
    "integerPart (getComputedStyle paddedPage Body ''padding-right'') 5"
    "integerPart (getComputedStyle paddedPage Body ''padding-top'') 0"
    "integerPart (getComputedStyle paddedPage Body ''padding-bottom'') 0"
    by (simp_all add: paddedPage_def integerPart_5px integerPart_0px)
  have g: "getBoundingClientRect paddedPage Body
      = \<lparr>rectLeft = 21 / 2, rectTop = 81 / 4, rectWidth = 100, rectHeight = 50\<rparr>"
    by (simp add: paddedPage_def)
  note th = boundingBox_padded [of paddedPage Body 5 5 0 0 "''body''"]
  from th p have b: "boundingBox paddedPage Body
      = \<lparr>boxX = Num 10, boxY = Num 20, boxWidth = Num 110, boxHeight = Num 50\<rparr>"
    by (simp add: g)
  from th r have "getBoundingRectangle paddedPage ''body'' = Some (boundingBox paddedPage Body)"
    by blast
  with b r p show ?thesis by simp
qed

subsection \<open>The style sampler\<close>

lemma querySelector_find: "querySelector pg tag = find (groupMatches pg tag) (elements pg)"
proof -
  have "(case filter P xs of [] \<Rightarrow> None | x # _ \<Rightarrow> Some x) = find P xs" for P and xs :: "'a list"
    by (induction xs) auto
  then show ?thesis by (simp add: querySelector_def querySelectorAll_def)
qed

lemma readProps_fold:
  "foldl (\<lambda>st p. st(p \<mapsto> g p)) m ps = (\<lambda>p. if p \<in> set ps then Some (g p) else m p)"
  by (induction ps arbitrary: m) (auto simp: fun_eq_iff)

lemma readProps_eq:
  "readProps pg el ps = (\<lambda>p. if p \<in> set ps then Some (getComputedStyle pg el p) else None)"
  unfolding readProps_def by (simp add: readProps_fold)

lemma scrape_fold:
  "foldl (\<lambda>style tag. case q tag of None \<Rightarrow> style | Some el \<Rightarrow> style(tag \<mapsto> r el)) m ts t
     = (if t \<in> set ts then (case q t of None \<Rightarrow> m t | Some el \<Rightarrow> Some (r el)) else m t)"
  by (induction ts arbitrary: m) (auto split: option.splits)

text \<open>
  C7, as stated: a region has an entry exactly when its primary (first) selector matches
  an element. On a page whose only element is matched by \<^verbatim>\<open>#header\<close>, the group
  \<^verbatim>\<open>header, #header\<close> gets an entry although its first selector matches nothing.
\<close>

theorem scrapeStyles_primary_counterexample:
  "\<not> spec_primaryMatches idOnlyPage ''header, #header''
   \<and> scrapeStyles idOnlyPage \<lparr>tags = [''header, #header''], props = [''color'']\<rparr>
        ''header, #header'' \<noteq> None"
  by (simp add: spec_primaryMatches_def selectorsOf_header idOnlyPage_def scrapeStyles_def
      querySelector_def querySelectorAll_def groupMatches_def)

text \<open>
  C7, amended. The style record has an entry under a key exactly when the key is a
  selector group of the catalog and some selector of the group matches an element; the
  entry holds, for every property of the property list and for no other, the value of
  the computed style of the first element in tree order that matches some selector of
  the group. A group without any match has no entry.
\<close>

theorem scrapeStyles_entries:
  "scrapeStyles pg cfg tag =
     (if tag \<in> set (tags cfg)
      then (case find (groupMatches pg tag) (elements pg) of
              None \<Rightarrow> None
            | Some el \<Rightarrow>
                Some (\<lambda>p. if p \<in> set (props cfg) then Some (getComputedStyle pg el p)
                          else None))
      else None)"
  unfolding scrapeStyles_def
  by (simp add: scrape_fold querySelector_find readProps_eq split: option.splits)

theorem scrapeStyles_entries_witness:
  "Option.bind
     (scrapeStyles idOnlyPage \<lparr>tags = [''header, #header'', ''body''], props = [''color'']\<rparr>
        ''header, #header'')
     (\<lambda>st. st ''color'') = Some (Str ''none'')
   \<and> scrapeStyles idOnlyPage \<lparr>tags = [''header, #header'', ''body''], props = [''color'']\<rparr>
      ''body'' = None"
proof -
  have a: "find (groupMatches idOnlyPage ''header, #header'') (elements idOnlyPage)
             = Some HeaderDiv"
    by (simp add: idOnlyPage_def groupMatches_def selectorsOf_header)
  have b: "find (groupMatches idOnlyPage ''body'') (elements idOnlyPage) = None"
    by (simp add: idOnlyPage_def groupMatches_def selectorsOf_body)
  have c: "getComputedStyle idOnlyPage HeaderDiv = (\<lambda>p. Str ''none'')"
    by (simp add: idOnlyPage_def)
  show ?thesis
    using scrapeStyles_entries
            [of idOnlyPage "\<lparr>tags = [''header, #header'', ''body''], props = [''color'']\<rparr>"
                "''header, #header''"]
          scrapeStyles_entries
            [of idOnlyPage "\<lparr>tags = [''header, #header'', ''body''], props = [''color'']\<rparr>"
                "''body''"]
    by (simp add: a b c)
qed

section \<open>Properties of the colour extraction fan-out\<close>

lemma those_eq_Some: "those xs = Some ys \<longleftrightarrow> xs = map Some ys"
  by (induction xs arbitrary: ys) (auto split: option.splits)

lemma those_map_Some: "those (map Some ys) = Some ys"
  by (simp add: those_eq_Some)

lemma distinct_bounded_length:
  assumes "distinct xs" and "set xs \<subseteq> {..<n}"
  shows "length xs \<le> n"
proof -
  have "card (set xs) \<le> card {..<n}" using assms(2) by (intro card_mono) auto
  with assms(1) show ?thesis by (simp add: distinct_card)
qed

lemma distinct_full:
  assumes "distinct xs" and "set xs \<subseteq> {..<n}" and "length xs = n"
  shows "set xs = {..<n}"
proof -
  have "card (set xs) = card {..<n}" using assms by (simp add: distinct_card)
  with assms(2) show ?thesis by (intro card_subset_eq) auto
qed

lemma slotsAfter_full: "set done = {..<length vs} \<Longrightarrow> slotsAfter vs done = map Some vs"
  unfolding slotsAfter_def by (intro nth_equalityI) auto

lemma slotsAfter_snoc:
  "i < length vs \<Longrightarrow> (slotsAfter vs done)[i := Some (vs ! i)] = slotsAfter vs (done @ [i])"
  unfolding slotsAfter_def by (intro nth_equalityI) (auto simp: nth_list_update)

lemma allSettle_run:
  assumes "distinct order" and "set order \<subseteq> {..<length vs}"
  shows "foldl (allSettle (map Resolves vs)) (allStart (length vs)) order =
           \<lparr>slots = slotsAfter vs order,
            remaining = length vs - length order,
            outcome = (if length order = length vs then Resolves vs else NeverSettles)\<rparr>"
  using assms
proof (induction order rule: rev_induct)
  case Nil
  show ?case by (auto simp: allStart_def slotsAfter_def intro: nth_equalityI)
next
  case (snoc i order)
  then have d: "distinct order" and s: "set order \<subseteq> {..<length vs}"
    and i: "i < length vs" and ni: "i \<notin> set order" by auto
  have "length (order @ [i]) \<le> length vs"
    using snoc.prems by (rule distinct_bounded_length)
  then have lt: "length order < length vs" by simp
  have full: "Suc (length order) = length vs \<Longrightarrow> slotsAfter vs (order @ [i]) = map Some vs"
  proof -
    assume "Suc (length order) = length vs"
    then have "set (order @ [i]) = {..<length vs}"
      using snoc.prems by (intro distinct_full) auto
    then show ?thesis by (rule slotsAfter_full)
  qed
  have st: "foldl (allSettle (map Resolves vs)) (allStart (length vs)) order =
           \<lparr>slots = slotsAfter vs order,
            remaining = length vs - length order,
            outcome = NeverSettles\<rparr>"
    using snoc.IH [OF d s] lt by simp
  have step: "foldl (allSettle (map Resolves vs)) (allStart (length vs)) (order @ [i]) =
      allSettle (map Resolves vs)
        \<lparr>slots = slotsAfter vs order, remaining = length vs - length order,
         outcome = NeverSettles\<rparr> i"
    by (simp only: foldl_append foldl.simps st)
  show ?case
  proof (cases "Suc (length order) = length vs")
    case True
    then have r: "length vs - length order - 1 = 0" by simp
    show ?thesis
      unfolding step using i True full [OF True]
      by (simp add: allSettle_def Let_def slotsAfter_snoc r those_map_Some)
  next
    case False
    with lt have r: "length vs - length order - 1 \<noteq> 0" by simp
    show ?thesis
      unfolding step using i False lt
      by (simp add: allSettle_def Let_def slotsAfter_snoc r)
  qed
qed

lemma promiseAll_resolved:
  assumes "distinct order" and "set order = {..<length vs}"
  shows "promiseAll (map Resolves vs) order = Resolves vs"
proof -
  have "length order = length vs"
    using assms by (metis card_lessThan distinct_card)
  then show ?thesis
    using allSettle_run [of order vs] assms by (simp add: promiseAll_def)
qed

lemma filterArray_nonnull:
  "filter filterArray (map r ts) = map Some (List.map_filter r ts)"
  by (induction ts) (auto simp: filterArray_def List.map_filter_simps split: option.splits)

text \<open>
  C1. For a catalog of N regions whose tasks all resolve, each with a colour result or
  with null, and for every order in which the N tasks complete, the list handed on by
  the fan-out is the list of the non-null results in catalog order. The result of a
  task is given per selector group: equal groups address the same file.
\<close>

theorem promiseAllRelevantColors_order:
  "distinct order \<and> set order = {..<length (tags cfg)} \<Longrightarrow>
   promiseAllRelevantColors (\<lambda>tag. Resolves (r tag)) cfg order
     = Resolves (filter filterArray (map r (tags cfg)))
   \<and> filter filterArray (map r (tags cfg)) = map Some (List.map_filter r (tags cfg))"
proof -
  assume a: "distinct order \<and> set order = {..<length (tags cfg)}"
  have m: "map (\<lambda>tag. Resolves (r tag)) (tags cfg) = map Resolves (map r (tags cfg))"
    by simp
  have "promiseAll (map Resolves (map r (tags cfg))) order = Resolves (map r (tags cfg))"
    using a by (intro promiseAll_resolved) auto
  then show ?thesis
    unfolding promiseAllRelevantColors_def m by (simp add: filterArray_nonnull)
qed

theorem promiseAllRelevantColors_order_witness:
  "distinct [2, 0, 1 :: nat] \<and> set [2, 0, 1 :: nat] = {..<length (tags threeTags)}
   \<and> promiseAllRelevantColors (\<lambda>tag. Resolves (if tag = ''b'' then None else Some tag))
        threeTags [2, 0, 1]
       = Resolves [Some ''a'', Some ''c'']"
proof -
  have h: "distinct [2, 0, 1 :: nat] \<and> set [2, 0, 1 :: nat] = {..<length (tags threeTags)}"
    by (auto simp: threeTags_def)
  show ?thesis
    using promiseAllRelevantColors_order
            [OF h, of "\<lambda>tag. if tag = ''b'' then None else Some tag"] h
    by (simp add: threeTags_def filterArray_def)
qed

subsection \<open>Missing and empty screenshots\<close>

lemma allSound_start: "allSound ps (allStart (length ps))"
  by (auto simp: allSound_def allStart_def)

lemma slots_filled:
  assumes "length xs = length ps"
    and "\<forall>i v. i < length ps \<and> xs ! i = Some v \<longrightarrow> ps ! i = Resolves v"
    and "those xs = Some vs"
  shows "ps = map Resolves vs"
proof -
  from assms(3) have xs: "xs = map Some vs" by (simp add: those_eq_Some)
  with assms(1) have l: "length vs = length ps" by simp
  show ?thesis
  proof (intro nth_equalityI)
    show "length ps = length (map Resolves vs)" using l by simp
  next
    fix i assume "i < length ps"
    with assms(2) xs l show "ps ! i = map Resolves vs ! i" by simp
  qed
qed

lemma allSound_step:
  assumes "allSound ps st"
  shows "allSound ps (allSettle ps st i)"
proof (cases "length ps \<le> i")
  case True
  with assms show ?thesis by (simp add: allSettle_def)
next
  case False
  then have i: "i < length ps" by simp
  show ?thesis
  proof (cases "ps ! i")
    case (Resolves v)
    let ?vals = "(slots st)[i := Some v]"
    have len: "length ?vals = length ps" using assms by (simp add: allSound_def)
    have sl: "\<forall>j w. j < length ps \<and> ?vals ! j = Some w \<longrightarrow> ps ! j = Resolves w"
      using assms Resolves i by (auto simp: allSound_def nth_list_update)
    have out: "\<forall>vs. outcome st = Resolves vs \<longrightarrow> ps = map Resolves vs"
      using assms by (simp add: allSound_def)
    have new: "those ?vals = Some vs \<Longrightarrow> ps = map Resolves vs" for vs
      using slots_filled [OF len sl] by simp
    show ?thesis
      using False Resolves len sl out new
      by (auto simp: allSettle_def allSound_def Let_def split: option.splits)
  next
    case (Rejects e)
    with assms False show ?thesis by (auto simp: allSettle_def allSound_def)
  next
    case NeverSettles
    with assms False show ?thesis by (simp add: allSettle_def)
  qed
qed

lemma allSound_run: "allSound ps st \<Longrightarrow> allSound ps (foldl (allSettle ps) st order)"
  by (induction order arbitrary: st) (simp_all add: allSound_step)

lemma promiseAll_sound: "promiseAll ps order = Resolves vs \<Longrightarrow> ps = map Resolves vs"
  using allSound_run [OF allSound_start, of ps order]
  by (simp add: promiseAll_def allSound_def)

lemma promiseAllRelevantColors_sound:
  assumes "promiseAllRelevantColors task cfg order = Resolves res" and "Some c \<in> set res"
  shows "\<exists>tag \<in> set (tags cfg). task tag = Resolves (Some c)"
proof -
  from assms(1) obtain vs where p: "promiseAll (map task (tags cfg)) order = Resolves vs"
    and r: "res = filter filterArray vs"
    by (auto simp: promiseAllRelevantColors_def split: settlement.splits)
  from p have m: "map task (tags cfg) = map Resolves vs" by (rule promiseAll_sound)
  from assms(2) r have "Some c \<in> set vs" by simp
  then have "Resolves (Some c) \<in> set (map Resolves vs)" by simp
  with m have "Resolves (Some c) \<in> set (map task (tags cfg))" by simp
  then show ?thesis by auto
qed

lemma promiseRelevantColors_result:
  assumes "fst (promiseRelevantColors rt getColors dir tag fs) = Resolves (Some c)"
  shows "\<exists>sz. fs (pngPath dir (resultTag c)) = Some sz \<and> 0 < sz"
  using assms
  by (auto simp: promiseRelevantColors_def fs_stat_def fs_unlink_def Let_def
      split: sum.splits option.splits if_splits runtime.splits)

text \<open>
  A missing file: the task resolves with null and leaves the files as they are,
  whatever the runtime.
\<close>

lemma promiseRelevantColors_missing:
  "buildTagSafe tag = Inr tagSafe \<Longrightarrow> fs (pngPath dir tagSafe) = None \<Longrightarrow>
   promiseRelevantColors rt getColors dir tag fs = (Resolves None, fs)"
  by (simp add: promiseRelevantColors_def fs_stat_def)

text \<open>
  An empty file: where the runtime accepts \<^verbatim>\<open>fs.unlink\<close> without a callback, the file
  is deleted and the task resolves with null; where it requires the callback, the file
  stays and the task is never settled.
\<close>

lemma promiseRelevantColors_empty_optional:
  "buildTagSafe tag = Inr tagSafe \<Longrightarrow> fs (pngPath dir tagSafe) = Some 0 \<Longrightarrow>
   promiseRelevantColors CallbackOptional getColors dir tag fs
     = (Resolves None, fs(pngPath dir tagSafe := None))"
  by (simp add: promiseRelevantColors_def fs_stat_def fs_unlink_def)

lemma promiseRelevantColors_empty_required:
  "buildTagSafe tag = Inr tagSafe \<Longrightarrow> fs (pngPath dir tagSafe) = Some 0 \<Longrightarrow>
   promiseRelevantColors CallbackRequired getColors dir tag fs = (NeverSettles, fs)"
  by (simp add: promiseRelevantColors_def fs_stat_def fs_unlink_def)

text \<open>
  Whenever the fan-out completes, no result of the aggregated output carries the
  identifier of a region whose file is missing or empty.
\<close>

lemma promiseRelevantColors_excluded:
  assumes "fs (pngPath dir tagSafe) = None \<or> fs (pngPath dir tagSafe) = Some 0"
    and "promiseAllRelevantColors
           (\<lambda>t. fst (promiseRelevantColors rt getColors dir t fs)) cfg order = Resolves res"
    and "Some c \<in> set res"
  shows "resultTag c \<noteq> tagSafe"
proof -
  from assms(2,3) obtain t
    where "fst (promiseRelevantColors rt getColors dir t fs) = Resolves (Some c)"
    using promiseAllRelevantColors_sound by fastforce
  then obtain sz where "fs (pngPath dir (resultTag c)) = Some sz" and "0 < sz"
    using promiseRelevantColors_result by blast
  with assms(1) show ?thesis by auto
qed

lemma runDir_eq: "runDir = ''./data/example.com''"
  by (simp add: runDir_def screenshotDir_def buildUrlFileName_def trimHyphen_def replaceAll_def)

lemma tagSafe_header: "buildTagSafe ''header, #header'' = Inr ''header''"
  by (simp add: buildTagSafe_def)

lemma tagSafe_body: "buildTagSafe ''body'' = Inr ''body''"
  by (simp add: buildTagSafe_def)

lemma exampleFiles_header: "exampleFiles (pngPath runDir ''header'') = Some 0"
  by (simp add: exampleFiles_def pngPath_def runDir_eq)

lemma exampleFiles_body: "exampleFiles (pngPath runDir ''body'') = Some 2048"
  by (simp add: exampleFiles_def pngPath_def runDir_eq)

lemma example_body_task:
  "fst (promiseRelevantColors rt exampleColors runDir ''body'' exampleFiles)
     = Resolves (Some \<lparr>resultTag = ''body'', resultColors = [''rgb(255, 255, 255)'']\<rparr>)"
  by (simp add: promiseRelevantColors_def tagSafe_body fs_stat_def exampleFiles_body
      exampleColors_def)

text \<open>
  With a runtime that accepts the missing callback, the empty file of the header is
  deleted and the fan-out hands on the result of the body alone.
\<close>

lemma example_fanout_optional:
  "promiseRelevantColors CallbackOptional exampleColors runDir ''header, #header'' exampleFiles
     = (Resolves None, exampleFiles(pngPath runDir ''header'' := None))
   \<and> promiseAllRelevantColors
        (\<lambda>t. fst (promiseRelevantColors CallbackOptional exampleColors runDir t exampleFiles))
        bodyAndHeader [1, 0]
       = Resolves [Some \<lparr>resultTag = ''body'', resultColors = [''rgb(255, 255, 255)'']\<rparr>]"
proof -
  have t2: "promiseRelevantColors CallbackOptional exampleColors runDir ''header, #header''
      exampleFiles = (Resolves None, exampleFiles(pngPath runDir ''header'' := None))"
    using tagSafe_header exampleFiles_header by (rule promiseRelevantColors_empty_optional)
  then show ?thesis
    by (simp add: promiseAllRelevantColors_def bodyAndHeader_def promiseAll_def allStart_def
        allSettle_def example_body_task filterArray_def)
qed

text \<open>
  C5. The task for a missing file resolves with null, but the task for an empty file
  does not where the runtime requires a callback of \<^verbatim>\<open>fs.unlink\<close>, as Node.js does from
  version 10 on: with an empty screenshot of the header, the call throws before
  \<^verbatim>\<open>resolve( null )\<close>, the file stays, the task is never settled, and the fan-out over
  the catalog never completes.
\<close>

theorem promiseRelevantColors_unlink_throws:
  "buildTagSafe ''header, #header'' = Inr ''header''
   \<and> exampleFiles (pngPath runDir ''header'') = Some 0
   \<and> promiseRelevantColors CallbackRequired exampleColors runDir ''header, #header'' exampleFiles
       = (NeverSettles, exampleFiles)
   \<and> promiseAllRelevantColors
        (\<lambda>t. fst (promiseRelevantColors CallbackRequired exampleColors runDir t exampleFiles))
        bodyAndHeader [1, 0]
       = NeverSettles"
proof -
  have t2: "promiseRelevantColors CallbackRequired exampleColors runDir ''header, #header''
      exampleFiles = (NeverSettles, exampleFiles)"
    using tagSafe_header exampleFiles_header by (rule promiseRelevantColors_empty_required)
  have "promiseAllRelevantColors
        (\<lambda>t. fst (promiseRelevantColors CallbackRequired exampleColors runDir t exampleFiles))
        bodyAndHeader [1, 0]
       = NeverSettles"
    by (simp add: promiseAllRelevantColors_def bodyAndHeader_def promiseAll_def allStart_def
        allSettle_def example_body_task t2)
  with t2 tagSafe_header exampleFiles_header show ?thesis by simp
qed

section \<open>Properties of the screenshot sequencer\<close>

lemma getScreenshot_unfold:
  "getScreenshot br cfg dir count =
     (if length (tags cfg) \<le> count then ([], Unhandled TypeError)
      else (case regionStep br cfg dir count of
              (calls, Some out) \<Rightarrow> (calls, out)
            | (calls, None) \<Rightarrow>
                if Suc count = length (tags cfg) then (calls @ [End], Closed)
                else (calls @ fst (getScreenshot br cfg dir (Suc count)),
                      snd (getScreenshot br cfg dir (Suc count)))))"
  by (subst getScreenshot.simps)
     (auto simp: regionStep_def Let_def split: sum.splits settlement.splits prod.splits)

lemma captureCalls_index: "c \<in> set (captureCalls count path rect) \<Longrightarrow> callIndex n c = count"
  by (auto simp: captureCalls_def split: option.splits)

lemma regionStep_index:
  "regionStep br cfg dir count = (calls, r) \<Longrightarrow> c \<in> set calls \<Longrightarrow> callIndex n c = count"
  by (auto simp: regionStep_def Let_def captureCalls_index
      split: sum.splits settlement.splits option.splits)

lemma regionStep_stops:
  "regionStep br cfg dir count = (calls, Some out) \<Longrightarrow> out \<noteq> Closed"
  by (auto simp: regionStep_def Let_def split: sum.splits settlement.splits option.splits)

lemma regionStep_continues:
  "regionStep br cfg dir count = (calls, None) \<Longrightarrow> calls = regionCalls br cfg dir count"
  by (auto simp: regionStep_def regionCalls_def captureCalls_def pngPath_def Let_def
      split: sum.splits settlement.splits option.splits)

lemma regionStep_completed:
  "regionStep br cfg dir count = (calls, None) \<Longrightarrow> regionCompleted br cfg count"
  by (auto simp: regionStep_def regionCompleted_def Let_def
      split: sum.splits settlement.splits option.splits)

lemma sorted_same_index:
  "\<forall>c \<in> set calls. callIndex n c = k \<Longrightarrow> sorted (map (callIndex n) calls)"
  by (induction calls) auto

lemma getScreenshot_trace:
  "sorted (map (callIndex (length (tags cfg))) (fst (getScreenshot br cfg dir count)))
   \<and> (\<forall>c \<in> set (fst (getScreenshot br cfg dir count)).
         count \<le> callIndex (length (tags cfg)) c)
   \<and> (\<forall>c \<in> set (fst (getScreenshot br cfg dir count)).
         \<forall>i. count \<le> i \<and> i < callIndex (length (tags cfg)) c \<longrightarrow> regionCompleted br cfg i)
   \<and> (End \<in> set (fst (getScreenshot br cfg dir count))
        \<longleftrightarrow> snd (getScreenshot br cfg dir count) = Closed)
   \<and> (snd (getScreenshot br cfg dir count) = Closed \<longrightarrow>
        fst (getScreenshot br cfg dir count)
          = concat (map (regionCalls br cfg dir) [count ..< length (tags cfg)]) @ [End])"
proof (induction "length (tags cfg) - count" arbitrary: count)
  case 0
  then have "length (tags cfg) \<le> count" by simp
  then have "getScreenshot br cfg dir count = ([], Unhandled TypeError)"
    by (subst getScreenshot_unfold) simp
  then show ?case by simp
next
  case (Suc k)
  let ?n = "length (tags cfg)"
  from Suc.hyps(2) have lt: "count < ?n" by simp
  obtain calls r where step: "regionStep br cfg dir count = (calls, r)"
    by (cases "regionStep br cfg dir count")
  have idx: "\<forall>c \<in> set calls. callIndex ?n c = count"
    using regionStep_index [OF step] by blast
  have noEnd: "End \<notin> set calls"
    using idx lt by force
  have srt: "sorted (map (callIndex ?n) calls)"
    using idx by (rule sorted_same_index)
  have own: "\<forall>c \<in> set calls. \<forall>i. count \<le> i \<and> i < callIndex ?n c \<longrightarrow> regionCompleted br cfg i"
    using idx by auto
  show ?case
  proof (cases r)
    case (Some out)
    have g: "getScreenshot br cfg dir count = (calls, out)"
      using lt step Some by (subst getScreenshot_unfold) simp
    have nc: "out \<noteq> Closed" using step Some regionStep_stops by blast
    have b: "\<forall>c \<in> set calls. count \<le> callIndex ?n c"
      using idx by simp
    have e: "End \<in> set calls \<longleftrightarrow> out = Closed"
      using noEnd nc by simp
    have d: "out = Closed \<longrightarrow>
        calls = concat (map (regionCalls br cfg dir) [count ..< ?n]) @ [End]"
      using nc by simp
    show ?thesis
      unfolding g fst_conv snd_conv
      by (rule conjI [OF srt conjI [OF b conjI [OF own conjI [OF e d]]]])
  next
    case None
    have rc: "calls = regionCalls br cfg dir count"
      using step None regionStep_continues by blast
    have fin: "regionCompleted br cfg count"
      using step None regionStep_completed by blast
    show ?thesis
    proof (cases "Suc count = ?n")
      case True
      have g: "getScreenshot br cfg dir count = (calls @ [End], Closed)"
        using lt step None True by (subst getScreenshot_unfold) simp
      have up: "[count ..< ?n] = [count]"
        using True by (metis upt_rec lt upt_eq_Nil_conv le_refl)
      have s: "sorted (map (callIndex ?n) (calls @ [End]))"
        using srt idx lt by (auto simp: sorted_append)
      have b: "\<forall>c \<in> set (calls @ [End]). count \<le> callIndex ?n c"
        using idx lt by auto
      have c: "\<forall>c \<in> set (calls @ [End]).
                 \<forall>i. count \<le> i \<and> i < callIndex ?n c \<longrightarrow> regionCompleted br cfg i"
      proof (intro ballI allI impI)
        fix c i
        assume c: "c \<in> set (calls @ [End])" and i: "count \<le> i \<and> i < callIndex ?n c"
        show "regionCompleted br cfg i"
        proof (cases "c = End")
          case True
          with i \<open>Suc count = ?n\<close> have "i = count" by simp
          with fin show ?thesis by simp
        next
          case False
          with c have "c \<in> set calls" by simp
          with own i show ?thesis by blast
        qed
      qed
      have e: "End \<in> set (calls @ [End]) \<longleftrightarrow> Closed = Closed"
        by simp
      have d: "Closed = Closed \<longrightarrow>
          calls @ [End] = concat (map (regionCalls br cfg dir) [count ..< ?n]) @ [End]"
        unfolding up using rc by simp
      show ?thesis
        unfolding g fst_conv snd_conv
        by (rule conjI [OF s conjI [OF b conjI [OF c conjI [OF e d]]]])
    next
      case False
      let ?rest = "getScreenshot br cfg dir (Suc count)"
      have g: "getScreenshot br cfg dir count = (calls @ fst ?rest, snd ?rest)"
        using lt step None False by (subst getScreenshot_unfold) simp
      have k: "k = ?n - Suc count" using Suc.hyps(2) by simp
      note ih = Suc.hyps(1) [OF k]
      note ihSorted = ih [THEN conjunct1]
      note ihBound = ih [THEN conjunct2, THEN conjunct1]
      note ihDone = ih [THEN conjunct2, THEN conjunct2, THEN conjunct1]
      note ihEnd = ih [THEN conjunct2, THEN conjunct2, THEN conjunct2, THEN conjunct1]
      note ihClosed = ih [THEN conjunct2, THEN conjunct2, THEN conjunct2, THEN conjunct2]
      have up: "[count ..< ?n] = count # [Suc count ..< ?n]"
        using lt by (simp add: upt_rec)
      have s: "sorted (map (callIndex ?n) (calls @ fst ?rest))"
        using srt idx ihSorted ihBound by (fastforce simp: sorted_append)
      have b: "\<forall>c \<in> set (calls @ fst ?rest). count \<le> callIndex ?n c"
        using idx ihBound by fastforce
      have c: "\<forall>c \<in> set (calls @ fst ?rest).
                 \<forall>i. count \<le> i \<and> i < callIndex ?n c \<longrightarrow> regionCompleted br cfg i"
      proof (intro ballI allI impI)
        fix c i
        assume c: "c \<in> set (calls @ fst ?rest)" and i: "count \<le> i \<and> i < callIndex ?n c"
        show "regionCompleted br cfg i"
        proof (cases "c \<in> set calls")
          case True
          with own i show ?thesis by blast
        next
          case False
          with c have r: "c \<in> set (fst ?rest)" by simp
          show ?thesis
          proof (cases "i = count")
            case True
            with fin show ?thesis by simp
          next
            case False
            with i have "Suc count \<le> i \<and> i < callIndex ?n c" by simp
            with ihDone r show ?thesis by blast
          qed
        qed
      qed
      have e: "End \<in> set (calls @ fst ?rest) \<longleftrightarrow> snd ?rest = Closed"
        using noEnd ihEnd by simp
      have d: "snd ?rest = Closed \<longrightarrow>
          calls @ fst ?rest = concat (map (regionCalls br cfg dir) [count ..< ?n]) @ [End]"
        unfolding up using ihClosed rc by simp
      show ?thesis
        unfolding g fst_conv snd_conv
        by (rule conjI [OF s conjI [OF b conjI [OF c conjI [OF e d]]]])
    qed
  qed
qed

lemma regionStep_complete:
  assumes "allComplete br cfg" and "count < length (tags cfg)"
  shows "snd (regionStep br cfg dir count) = None"
proof -
  have "regionCompleted br cfg count"
    using assms by (simp add: allComplete_def list_all_iff)
  then show ?thesis
    by (auto simp: regionStep_def regionCompleted_def Let_def buildTagSafe_firstSelector
        split: settlement.splits option.splits)
qed

lemma getScreenshot_completes:
  "allComplete br cfg \<Longrightarrow> count < length (tags cfg) \<Longrightarrow>
   snd (getScreenshot br cfg dir count) = Closed"
proof (induction "length (tags cfg) - count" arbitrary: count)
  case 0
  then show ?case by simp
next
  case (Suc k)
  obtain calls r where step: "regionStep br cfg dir count = (calls, r)"
    by (cases "regionStep br cfg dir count")
  with regionStep_complete [OF Suc.prems, of dir] have r: "r = None" by simp
  show ?case
  proof (cases "Suc count = length (tags cfg)")
    case True
    then show ?thesis
      using Suc.prems step r by (subst getScreenshot_unfold) simp
  next
    case False
    with Suc.prems have lt: "Suc count < length (tags cfg)" by simp
    have k: "k = length (tags cfg) - Suc count" using Suc.hyps(2) by simp
    have "snd (getScreenshot br cfg dir (Suc count)) = Closed"
      using Suc.hyps(1) [OF k Suc.prems(1) lt] .
    then show ?thesis
      using Suc.prems step r False by (subst getScreenshot_unfold) simp
  qed
qed

lemma getScreenshot_empty: "tags cfg = [] \<Longrightarrow> snd (getScreenshot br cfg dir 0) \<noteq> Closed"
  by (subst getScreenshot_unfold) simp

text \<open>
  C9. In the calls made on the browser session, started at index 0, the calls are ordered
  by region index, and every call is made only after the capture steps of all earlier
  regions have completed: no call for region i + 1, and no closing of the session,
  where the evaluation or the screenshot of region i has failed or is still pending.
  The session is closed exactly when the sequencing task is resolved, which is exactly
  when the catalog is not empty and every capture step completes; the calls are then
  those of a plain iteration over the whole catalog followed by the closing.
\<close>

theorem getScreenshot_sequential:
  "getScreenshot br cfg dir 0 = (trace, out) \<Longrightarrow>
   sorted (map (callIndex (length (tags cfg))) trace)
   \<and> afterCompletion br cfg trace
   \<and> (End \<in> set trace \<longleftrightarrow> out = Closed)
   \<and> (out = Closed \<longrightarrow> trace = spec_sequence br cfg dir)
   \<and> (out = Closed \<longleftrightarrow> allComplete br cfg \<and> tags cfg \<noteq> [])"
proof -
  assume g: "getScreenshot br cfg dir 0 = (trace, out)"
  note t = getScreenshot_trace [of cfg br dir 0, unfolded g fst_conv snd_conv]
  have s: "sorted (map (callIndex (length (tags cfg))) trace)" using t by blast
  have a: "afterCompletion br cfg trace"
    using t by (simp add: afterCompletion_def list_all_iff)
  have e: "End \<in> set trace \<longleftrightarrow> out = Closed" using t by blast
  have q: "out = Closed \<longrightarrow> trace = spec_sequence br cfg dir"
    using t by (simp add: spec_sequence_def)
  have c1: "allComplete br cfg \<and> tags cfg \<noteq> [] \<longrightarrow> out = Closed"
    using getScreenshot_completes [of br cfg 0 dir] g by simp
  have c2: "out = Closed \<longrightarrow> allComplete br cfg \<and> tags cfg \<noteq> []"
  proof
    assume o: "out = Closed"
    with e have "End \<in> set trace" by simp
    with a have "allComplete br cfg"
      by (auto simp: afterCompletion_def allComplete_def list_all_iff)
    moreover have "tags cfg \<noteq> []"
      using getScreenshot_empty [of cfg br dir] g o by auto
    ultimately show "allComplete br cfg \<and> tags cfg \<noteq> []" by simp
  qed
  from s a e q c1 c2 show ?thesis by blast
qed

text \<open>
  Where the screenshot of the second region never completes, the third region is not
  evaluated and the session is not closed.
\<close>

lemma getScreenshot_stalled:
  "getScreenshot stalledB threeTags runDir 0
     = ([Evaluate 0 ''a'',
         Evaluate 1 ''b'', ScrollTo 1 (Num 40) (Num 0),
         Screenshot 1 ''./data/example.com/b.png'' sampleRect], Hung)"
  by (simp add: getScreenshot.simps threeTags_def stalledB_def buildTagSafe_def captureCalls_def
      pngPath_def runDir_eq sampleRect_def)

theorem getScreenshot_sequential_witness:
  "getScreenshot onlyB threeTags runDir 0
     = ([Evaluate 0 ''a'',
         Evaluate 1 ''b'', ScrollTo 1 (Num 40) (Num 0),
         Screenshot 1 ''./data/example.com/b.png'' sampleRect,
         Evaluate 2 ''c'',
         End], Closed)
   \<and> sorted (map (callIndex (length (tags threeTags)))
        [Evaluate 0 ''a'',
         Evaluate 1 ''b'', ScrollTo 1 (Num 40) (Num 0),
         Screenshot 1 ''./data/example.com/b.png'' sampleRect,
         Evaluate 2 ''c'',
         End])
   \<and> spec_sequence onlyB threeTags runDir
     = [Evaluate 0 ''a'',
         Evaluate 1 ''b'', ScrollTo 1 (Num 40) (Num 0),
         Screenshot 1 ''./data/example.com/b.png'' sampleRect,
         Evaluate 2 ''c'',
         End]
   \<and> afterCompletion onlyB threeTags
        [Evaluate 0 ''a'',
         Evaluate 1 ''b'', ScrollTo 1 (Num 40) (Num 0),
         Screenshot 1 ''./data/example.com/b.png'' sampleRect,
         Evaluate 2 ''c'',
         End]
   \<and> allComplete onlyB threeTags"
proof -
  have g: "getScreenshot onlyB threeTags runDir 0
     = ([Evaluate 0 ''a'',
         Evaluate 1 ''b'', ScrollTo 1 (Num 40) (Num 0),
         Screenshot 1 ''./data/example.com/b.png'' sampleRect,
         Evaluate 2 ''c'',
         End], Closed)"
    by (simp add: getScreenshot.simps threeTags_def onlyB_def buildTagSafe_def captureCalls_def
        pngPath_def runDir_eq sampleRect_def)
  have c: "allComplete onlyB threeTags"
    by (simp add: allComplete_def regionCompleted_def threeTags_def onlyB_def upt_rec)
  note th = getScreenshot_sequential [OF g]
  from th have s: "sorted (map (callIndex (length (tags threeTags)))
        [Evaluate 0 ''a'',
         Evaluate 1 ''b'', ScrollTo 1 (Num 40) (Num 0),
         Screenshot 1 ''./data/example.com/b.png'' sampleRect,
         Evaluate 2 ''c'',
         End])"
    by (rule conjunct1)
  from th have e: "[Evaluate 0 ''a'',
         Evaluate 1 ''b'', ScrollTo 1 (Num 40) (Num 0),
         Screenshot 1 ''./data/example.com/b.png'' sampleRect,
         Evaluate 2 ''c'',
         End] = spec_sequence onlyB threeTags runDir"
    by blast
  note a = th [THEN conjunct2, THEN conjunct1]
  show ?thesis
    by (intro conjI g s e [symmetric] a c)
qed

end
